theory Spec2Isabelle
  imports Complex_Main "HOL-Library.Log_Nat"
begin

section \<open>Obot Core: the orchestration loop and the risk sizer of \<open>core/autobot.py\<close>\<close>

subsection \<open>Python values, exceptions and observable events\<close>

text \<open>
  Exceptions are values. \<open>except Exception\<close> catches every instance of \<open>Exception\<close>;
  \<open>BaseException s\<close> stands for an exception that is not one (\<open>KeyboardInterrupt\<close>,
  \<open>SystemExit\<close>, \<open>GeneratorExit\<close>), \<open>Exception s\<close> for any other instance of
  \<open>Exception\<close> that a collaborator raises, with its text. \<open>Unprintable x\<close> is an
  instance of \<open>Exception\<close> that cannot be rendered: formatting it (its \<open>__format__\<close>,
  which calls its \<open>__str__\<close>) raises \<open>x\<close>.
\<close>

datatype py_exc =
    NotImplementedError
  | KeyError string
  | AttributeError
  | TypeError
  | ZeroDivisionError
  | Exception string
  | Unprintable py_exc
  | BaseException string

fun is_Exception :: "py_exc \<Rightarrow> bool" where
  "is_Exception (BaseException s) = False"
| "is_Exception e = True"

text \<open>Rendering \<open>{e}\<close> in an f-string: the exception that raises, if one does.\<close>

fun format_raises :: "py_exc \<Rightarrow> py_exc option" where
  "format_raises (Unprintable x) = Some x"
| "format_raises e = None"

text \<open>
  The values a signal dictionary holds. A finite float is modelled by the rational it
  denotes; comparing it with the integer \<open>0\<close> is exact in Python.
\<close>

datatype py_value = PInt int | PBool bool | PFloat rat | PStr string | PNone

text \<open>\<open>v != 0\<close>: values of unrelated types are unequal, \<open>False == 0\<close> and \<open>True == 1\<close>.\<close>

fun py_ne_zero :: "py_value \<Rightarrow> bool" where
  "py_ne_zero (PInt i) = (i \<noteq> 0)"
| "py_ne_zero (PBool b) = b"
| "py_ne_zero (PFloat q) = (q \<noteq> 0)"
| "py_ne_zero (PStr s) = True"
| "py_ne_zero PNone = True"

text \<open>\<open>v > 0\<close>: ordering a string or \<open>None\<close> against an integer raises \<open>TypeError\<close>.\<close>

fun py_gt_zero :: "py_value \<Rightarrow> py_exc + bool" where
  "py_gt_zero (PInt i) = Inr (0 < i)"
| "py_gt_zero (PBool b) = Inr b"
| "py_gt_zero (PFloat q) = Inr (0 < q)"
| "py_gt_zero (PStr s) = Inl TypeError"
| "py_gt_zero PNone = Inl TypeError"

text \<open>
  What \<open>generate_signal\<close> hands back: a dictionary, or an object without a \<open>get\<close>
  method (\<open>None\<close>, a number), on which \<open>signal.get\<close> raises \<open>AttributeError\<close>.
\<close>

datatype py_signal = Dict "string \<rightharpoonup> py_value" | NonDict

definition dict_get :: "(string \<rightharpoonup> py_value) \<Rightarrow> string \<Rightarrow> py_value \<Rightarrow> py_value" where
  "dict_get m k dflt = (case m k of None \<Rightarrow> dflt | Some v \<Rightarrow> v)"

definition dict_subscript :: "(string \<rightharpoonup> 'v) \<Rightarrow> string \<Rightarrow> py_exc + 'v" where
  "dict_subscript m k = (case m k of None \<Rightarrow> Inl (KeyError k) | Some v \<Rightarrow> Inr v)"

text \<open>
  The observable actions of the core, in the order it performs them: calls across the
  collaborator boundary, log records and sleeps. A call is recorded when it is made,
  whether it returns or raises.
\<close>

datatype event =
    FetchCandles string string nat
  | GenerateSignal string
  | PlaceOrder string string
  | GetOpenPositions
  | ClosePosition string
  | LogInfoOutsideSession
  | LogInfoSignal string string
  | LogError string py_exc
  | Sleep nat

fun is_trader_call :: "event \<Rightarrow> bool" where
  "is_trader_call (PlaceOrder p d) = True"
| "is_trader_call GetOpenPositions = True"
| "is_trader_call (ClosePosition i) = True"
| "is_trader_call e = False"

fun is_fetch_for :: "string \<Rightarrow> event \<Rightarrow> bool" where
  "is_fetch_for p (FetchCandles q tf n) = (q = p)"
| "is_fetch_for p e = False"

fun is_generate_for :: "string \<Rightarrow> event \<Rightarrow> bool" where
  "is_generate_for p (GenerateSignal q) = (q = p)"
| "is_generate_for p e = False"

fun is_signal_for :: "string \<Rightarrow> event \<Rightarrow> bool" where
  "is_signal_for p (LogInfoSignal q d) = (q = p)"
| "is_signal_for p e = False"

fun is_error_for :: "string \<Rightarrow> event \<Rightarrow> bool" where
  "is_error_for p (LogError q x) = (q = p)"
| "is_error_for p e = False"

fun event_pair :: "event \<Rightarrow> string option" where
  "event_pair (FetchCandles q tf n) = Some q"
| "event_pair (GenerateSignal q) = Some q"
| "event_pair (PlaceOrder q d) = Some q"
| "event_pair (LogInfoSignal q d) = Some q"
| "event_pair (LogError q x) = Some q"
| "event_pair e = None"

subsection \<open>Configuration\<close>

definition PAIRS :: "string list" where
  "PAIRS = [''EURUSD'', ''GBPUSD'', ''USDJPY'', ''USDCHF'', ''AUDUSD'', ''USDCAD'', ''NZDUSD'']"

text \<open>
  \<open>datetime.time\<close>: naive times of day compare as the tuples
  \<open>(hour, minute, second, microsecond)\<close>.
\<close>

record py_time =
  hour :: nat
  minute :: nat
  second :: nat
  microsecond :: nat

definition time_le :: "py_time \<Rightarrow> py_time \<Rightarrow> bool" where
  "time_le a b \<longleftrightarrow>
     hour a < hour b \<or> (hour a = hour b \<and>
       (minute a < minute b \<or> (minute a = minute b \<and>
         (second a < second b \<or> (second a = second b \<and>
           microsecond a \<le> microsecond b)))))"

definition time_lt :: "py_time \<Rightarrow> py_time \<Rightarrow> bool" where
  "time_lt a b \<longleftrightarrow>
     hour a < hour b \<or> (hour a = hour b \<and>
       (minute a < minute b \<or> (minute a = minute b \<and>
         (second a < second b \<or> (second a = second b \<and>
           microsecond a < microsecond b)))))"

definition TRADING_SESSION_START :: py_time where
  "TRADING_SESSION_START = \<lparr>hour = 8, minute = 0, second = 0, microsecond = 0\<rparr>"

definition TRADING_SESSION_END :: py_time where
  "TRADING_SESSION_END = \<lparr>hour = 12, minute = 0, second = 0, microsecond = 0\<rparr>"

definition MAX_CONCURRENT_TRADES_PER_PAIR :: int where
  "MAX_CONCURRENT_TRADES_PER_PAIR = 1"

subsection \<open>Python floats\<close>

text \<open>
  A Python float is an IEEE 754 binary64 value. A finite one is modelled by the real
  number it denotes; the two zeros are not told apart (they compare equal, and nothing
  below depends on the sign of a zero). Every arithmetic operation returns the double
  nearest to the exact result, a tie going to the even mantissa.

  \<open>round_half_even\<close> is the nearest integer, a tie going to the even one.
\<close>

definition round_half_even :: "real \<Rightarrow> int" where
  "round_half_even y =
     (let f = \<lfloor>y\<rfloor>; d = y - of_int f
      in if d < 1 / 2 then f
         else if 1 / 2 < d then f + 1
         else if even f then f else f + 1)"

datatype py_float = Fin real | PosInf | NegInf | NaN

text \<open>
  For \<open>x > 0\<close>, \<open>floor_log2 x\<close> is the \<open>e\<close> with \<open>2^e \<le> x < 2^(e+1)\<close>. The exponent
  of a double stops at \<open>-1022\<close>, below which the subnormal numbers share one spacing;
  the spacing of the doubles around \<open>a\<close> is \<open>ulp_of a\<close>, 52 binary places below the
  exponent.
\<close>

definition floor_log2 :: "real \<Rightarrow> int" where
  "floor_log2 x = (if 1 \<le> x then bitlen \<lfloor>x\<rfloor> - 1 else - bitlen (\<lceil>1 / x\<rceil> - 1))"

definition double_exponent :: "real \<Rightarrow> int" where
  "double_exponent a = max (floor_log2 a) (- 1022)"

definition ulp_of :: "real \<Rightarrow> real" where
  "ulp_of a = 2 powi (double_exponent a - 52)"

text \<open>A positive real rounded to a whole number of spacings.\<close>

definition round_mag :: "real \<Rightarrow> real" where
  "round_mag a = of_int (round_half_even (a / ulp_of a)) * ulp_of a"

text \<open>
  Round to nearest, ties to even: the double nearest to a real, an infinity when the
  rounded magnitude reaches \<open>2^1024\<close>.
\<close>

definition nearest_double :: "real \<Rightarrow> py_float" where
  "nearest_double x =
     (if x = 0 then Fin 0
      else
        let y = round_mag \<bar>x\<bar>
        in if 2 ^ 1024 \<le> y then (if 0 < x then PosInf else NegInf)
           else Fin (if 0 < x then y else - y))"

text \<open>The reals that are doubles, and the values a float can hold.\<close>

definition is_double :: "real \<Rightarrow> bool" where
  "is_double x \<longleftrightarrow> nearest_double x = Fin x"

fun is_float :: "py_float \<Rightarrow> bool" where
  "is_float (Fin x) = is_double x"
| "is_float v = True"

fun float_sign :: "py_float \<Rightarrow> int" where
  "float_sign (Fin x) = (if 0 < x then 1 else if x < 0 then - 1 else 0)"
| "float_sign PosInf = 1"
| "float_sign NegInf = - 1"
| "float_sign NaN = 0"

text \<open>\<open>a * b\<close>: overflow gives an infinity, never an exception.\<close>

fun float_mul :: "py_float \<Rightarrow> py_float \<Rightarrow> py_float" where
  "float_mul (Fin a) (Fin b) = nearest_double (a * b)"
| "float_mul NaN b = NaN"
| "float_mul a NaN = NaN"
| "float_mul a b =
     (let s = float_sign a * float_sign b
      in if s = 0 then NaN else if 0 < s then PosInf else NegInf)"

text \<open>\<open>a / b\<close>: a zero divisor raises \<open>ZeroDivisionError\<close>, whatever the dividend.\<close>

fun float_truediv :: "py_float \<Rightarrow> py_float \<Rightarrow> py_exc + py_float" where
  "float_truediv a (Fin b) =
     (if b = 0 then Inl ZeroDivisionError
      else case a of
             Fin x \<Rightarrow> Inr (nearest_double (x / b))
           | NaN \<Rightarrow> Inr NaN
           | PosInf \<Rightarrow> Inr (if 0 < b then PosInf else NegInf)
           | NegInf \<Rightarrow> Inr (if 0 < b then NegInf else PosInf))"
| "float_truediv NaN b = Inr NaN"
| "float_truediv a NaN = Inr NaN"
| "float_truediv (Fin x) b = Inr (Fin 0)"
| "float_truediv a b = Inr NaN"

text \<open>
  \<open>round(x, ndigits)\<close> on a float: the exact value of \<open>x\<close> is rounded to \<open>ndigits\<close>
  decimal places, a tie going to the even digit, and the decimal is converted back to
  the nearest double. Infinities and NaN are returned as they are.
\<close>

fun float_round :: "py_float \<Rightarrow> nat \<Rightarrow> py_float" where
  "float_round (Fin x) ndigits =
     nearest_double (of_int (round_half_even (x * 10 ^ ndigits)) / 10 ^ ndigits)"
| "float_round v ndigits = v"

text \<open>\<open>q >= 0\<close>\<close>

fun float_ge_zero :: "py_float \<Rightarrow> bool" where
  "float_ge_zero (Fin x) = (0 \<le> x)"
| "float_ge_zero PosInf = True"
| "float_ge_zero NegInf = False"
| "float_ge_zero NaN = False"

subsection \<open>RiskManager\<close>

text \<open>
  The arguments are floats, as annotated. In \<open>sl_pips * 10\<close> the integer is converted
  to the float \<open>10.0\<close> first.
\<close>

definition RISK_PERCENT_PER_TRADE :: py_float where
  "RISK_PERCENT_PER_TRADE = nearest_double (1 / 100)"

definition calculate_lot_size :: "py_float \<Rightarrow> py_float \<Rightarrow> py_float \<Rightarrow> py_exc + py_float" where
  "calculate_lot_size account_balance risk_percent sl_pips =
     (let risk_amount = float_mul account_balance risk_percent
      in case float_truediv risk_amount (float_mul sl_pips (Fin 10)) of
           Inl e \<Rightarrow> Inl e
         | Inr lot_size \<Rightarrow> Inr (float_round lot_size 2))"

text \<open>
  The contract the specification gives the sizer's inputs, for finite floats; what it
  means for a float to be another one rounded to two decimal places (the double nearest
  to a whole number of hundredths, itself nearest to the float); and the inputs of
  ordinary magnitude, between \<open>2^-300\<close> and \<open>2^300\<close>, on which no product or quotient
  of the sizer overflows or falls into the subnormal range.
\<close>

definition valid_input :: "real \<Rightarrow> real \<Rightarrow> real \<Rightarrow> bool" where
  "valid_input b r d \<longleftrightarrow>
     is_double b \<and> is_double r \<and> is_double d \<and> 0 < b \<and> 0 < r \<and> r \<le> 1 \<and> 0 < d"


definition ordinary :: "real \<Rightarrow> bool" where
  "ordinary x \<longleftrightarrow> 2 powi (- 300) \<le> x \<and> x \<le> 2 powi 300"

subsection \<open>Collaborators\<close>

text \<open>
  The data provider and the strategy are supplied by the caller and may do anything:
  each call takes the state \<open>'w\<close> of everything outside the core (broker, network,
  the collaborators' own memory) and returns it changed, with either the value
  returned or the exception raised. \<open>'d\<close> is the candle data, which the core only
  passes on.
\<close>

type_synonym ('d, 'w) fetch_candles = "string \<Rightarrow> string \<Rightarrow> nat \<Rightarrow> 'w \<Rightarrow> (py_exc + 'd) \<times> 'w"

type_synonym ('d, 'w) generate_signal = "string \<Rightarrow> 'd \<Rightarrow> 'w \<Rightarrow> (py_exc + py_signal) \<times> 'w"

text \<open>The base classes: \<open>DataProvider.fetch_candles\<close> raises, \<open>Strategy.generate_signal\<close>
  returns \<open>{"signal": 0}\<close>.\<close>

definition DataProvider_fetch_candles :: "('d, 'w) fetch_candles" where
  "DataProvider_fetch_candles pair timeframe count w = (Inl NotImplementedError, w)"

definition Strategy_generate_signal :: "('d, 'w) generate_signal" where
  "Strategy_generate_signal pair data w = (Inr (Dict [''signal'' \<mapsto> PInt 0]), w)"

subsection \<open>ObotCore\<close>

record ('d, 't, 'w) ObotCore =
  data_provider :: "('d, 'w) fetch_candles"
  trader :: 't
  strategy :: "('d, 'w) generate_signal"
  active_positions :: "string \<rightharpoonup> int"

text \<open>\<open>{pair: 0 for pair in PAIRS}\<close>\<close>

definition ObotCore_init ::
  "('d, 'w) fetch_candles \<Rightarrow> 't \<Rightarrow> ('d, 'w) generate_signal \<Rightarrow> ('d, 't, 'w) ObotCore" where
  "ObotCore_init dp tr st =
     \<lparr>data_provider = dp, trader = tr, strategy = st,
      active_positions = map_of (map (\<lambda>pair. (pair, 0)) PAIRS)\<rparr>"

text \<open>\<open>now\<close> is the reading of \<open>datetime.datetime.utcnow().time()\<close>.\<close>

definition is_trading_session :: "py_time \<Rightarrow> bool" where
  "is_trading_session now \<longleftrightarrow>
     time_le TRADING_SESSION_START now \<and> time_le now TRADING_SESSION_END"

text \<open>
  A run of a piece of the cycle yields the events it produced, the outside state it
  left, and the exception that escaped it, if one did.
\<close>

type_synonym 'w run = "event list \<times> 'w \<times> py_exc option"

text \<open>The statements under \<open>try\<close>, for one pair: the first exception ends them.\<close>

definition try_body :: "('d, 't, 'w) ObotCore \<Rightarrow> string \<Rightarrow> 'w \<Rightarrow> 'w run" where
  "try_body self pair w =
     (case data_provider self pair ''H1'' 100 w of
        (Inl e, w1) \<Rightarrow> ([FetchCandles pair ''H1'' 100], w1, Some e)
      | (Inr data, w1) \<Rightarrow>
          (case strategy self pair data w1 of
             (Inl e, w2) \<Rightarrow>
               ([FetchCandles pair ''H1'' 100, GenerateSignal pair], w2, Some e)
           | (Inr NonDict, w2) \<Rightarrow>
               ([FetchCandles pair ''H1'' 100, GenerateSignal pair], w2, Some AttributeError)
           | (Inr (Dict signal), w2) \<Rightarrow>
               if py_ne_zero (dict_get signal ''signal'' (PInt 0)) then
                 (case dict_subscript signal ''signal'' of
                    Inl e \<Rightarrow>
                      ([FetchCandles pair ''H1'' 100, GenerateSignal pair], w2, Some e)
                  | Inr v \<Rightarrow>
                      (case py_gt_zero v of
                         Inl e \<Rightarrow>
                           ([FetchCandles pair ''H1'' 100, GenerateSignal pair], w2, Some e)
                       | Inr b \<Rightarrow>
                           ([FetchCandles pair ''H1'' 100, GenerateSignal pair,
                             LogInfoSignal pair (if b then ''BUY'' else ''SELL'')], w2, None)))
               else ([FetchCandles pair ''H1'' 100, GenerateSignal pair], w2, None)))"

text \<open>
  \<open>try: ... except Exception as e: logging.error(f"Error processing {pair}: {e}")\<close>.
  The f-string is evaluated inside the handler, before \<open>logging.error\<close> is called:
  when rendering the exception raises, nothing is logged and the new exception leaves
  the handler.
\<close>

definition process_pair :: "('d, 't, 'w) ObotCore \<Rightarrow> string \<Rightarrow> 'w \<Rightarrow> 'w run" where
  "process_pair self pair w =
     (case try_body self pair w of
        (evs, w1, None) \<Rightarrow> (evs, w1, None)
      | (evs, w1, Some e) \<Rightarrow>
          if is_Exception e then
            (case format_raises e of
               None \<Rightarrow> (evs @ [LogError pair e], w1, None)
             | Some x \<Rightarrow> (evs, w1, Some x))
          else (evs, w1, Some e))"

text \<open>
  The \<open>for\<close> loop over the pairs still to visit. The admission test
  \<open>self.active_positions[pair] >= MAX_CONCURRENT_TRADES_PER_PAIR\<close> stands outside the
  \<open>try\<close>: a pair missing from the table ends the loop with \<open>KeyError\<close>.
\<close>

fun for_pairs :: "('d, 't, 'w) ObotCore \<Rightarrow> string list \<Rightarrow> 'w \<Rightarrow> 'w run" where
  "for_pairs self [] w = ([], w, None)"
| "for_pairs self (pair # rest) w =
     (case dict_subscript (active_positions self) pair of
        Inl e \<Rightarrow> ([], w, Some e)
      | Inr n \<Rightarrow>
          if n \<ge> MAX_CONCURRENT_TRADES_PER_PAIR then for_pairs self rest w
          else
            (case process_pair self pair w of
               (evs, w1, Some e) \<Rightarrow> (evs, w1, Some e)
             | (evs, w1, None) \<Rightarrow>
                 (case for_pairs self rest w1 of
                    (evs2, w2, r) \<Rightarrow> (evs @ evs2, w2, r))))"

text \<open>
  One cycle. The object is returned with the run: \<open>run_cycle\<close> assigns to none of its
  fields.
\<close>

definition run_cycle ::
  "('d, 't, 'w) ObotCore \<Rightarrow> py_time \<Rightarrow> 'w \<Rightarrow> ('d, 't, 'w) ObotCore \<times> 'w run" where
  "run_cycle self now w =
     (if \<not> is_trading_session now then
        (self, [LogInfoOutsideSession, Sleep 300], w, None)
      else
        (case for_pairs self PAIRS w of
           (evs, w1, Some e) \<Rightarrow> (self, evs, w1, Some e)
         | (evs, w1, None) \<Rightarrow> (self, evs @ [Sleep 60], w1, None)))"

text \<open>
  The objects \<open>run\<close> can hold at the start of a cycle: the constructed one, and the
  one any cycle leaves, whatever the clock and the outside world were.
\<close>

inductive reachable :: "('d, 't, 'w) ObotCore \<Rightarrow> bool" where
  constructed: "reachable (ObotCore_init dp tr st)"
| cycle: "reachable self \<Longrightarrow> run_cycle self now w = (self', r) \<Longrightarrow> reachable self'"

text \<open>A pair the admission test lets through.\<close>

definition admitted :: "('d, 't, 'w) ObotCore \<Rightarrow> string \<Rightarrow> bool" where
  "admitted self pair \<longleftrightarrow>
     (\<exists>n. active_positions self pair = Some n \<and> n < MAX_CONCURRENT_TRADES_PER_PAIR)"



subsection \<open>A concrete deployment\<close>

text \<open>
  A data provider whose outside state counts the requests made, and which has no data
  for one pair; a strategy that answers differently for different pairs; and the
  object built from them.
\<close>

definition demo_fetch_candles :: "(nat, nat) fetch_candles" where
  "demo_fetch_candles pair timeframe count w =
     (if pair = ''GBPUSD'' then (Inl (Exception ''DataUnavailable''), Suc w)
      else (Inr count, Suc w))"

definition demo_generate_signal :: "(nat, nat) generate_signal" where
  "demo_generate_signal pair data w =
     (if pair = ''USDJPY'' then (Inr (Dict [''confidence'' \<mapsto> PFloat (1 / 2)]), w)
      else if pair = ''USDCHF'' then
        (Inr (Dict [''signal'' \<mapsto> PInt 1, ''sl_pips'' \<mapsto> PFloat 20, ''tp_pips'' \<mapsto> PFloat 40]), w)
      else if pair = ''AUDUSD'' then (Inl (Exception ''model not loaded''), w)
      else (Inr (Dict [''signal'' \<mapsto> PInt 0]), w))"

definition demo_bot :: "(nat, unit, nat) ObotCore" where
  "demo_bot = ObotCore_init demo_fetch_candles () demo_generate_signal"

definition demo_bot_capped :: "(nat, unit, nat) ObotCore" where
  "demo_bot_capped = demo_bot\<lparr>active_positions := (active_positions demo_bot)(''USDCAD'' \<mapsto> 1)\<rparr>"

text \<open>
  The same deployment with a data provider whose exception for one pair cannot be
  rendered: its \<open>__str__\<close> returns \<open>None\<close>, so that formatting it raises \<open>TypeError\<close>.
\<close>

definition unprintable_fetch_candles :: "(nat, nat) fetch_candles" where
  "unprintable_fetch_candles pair timeframe count w =
     (if pair = ''GBPUSD'' then (Inl (Unprintable TypeError), Suc w)
      else (Inr count, Suc w))"

definition unprintable_bot :: "(nat, unit, nat) ObotCore" where
  "unprintable_bot = ObotCore_init unprintable_fetch_candles () demo_generate_signal"

section \<open>Properties\<close>

subsection \<open>Rounding to the nearest double\<close>

lemma two_powi_less_iff: "(2::real) powi m < 2 powi n \<longleftrightarrow> m < n"
proof
  assume l: "(2::real) powi m < 2 powi n"
  show "m < n"
  proof (rule ccontr)
    assume "\<not> m < n"
    then have "n \<le> m" by simp
    then have "(2::real) powi n \<le> 2 powi m" by (rule power_int_increasing) simp
    with l show False by simp
  qed
next
  assume "m < n"
  then show "(2::real) powi m < 2 powi n" by (rule power_int_strict_increasing) simp
qed

lemma two_powi_le_iff: "(2::real) powi m \<le> 2 powi n \<longleftrightarrow> m \<le> n"
  using two_powi_less_iff[of n m] by (simp add: not_less[symmetric])

lemma bitlen_pow_bounds:
  assumes "0 < n"
  shows "(2::real) powi (bitlen n - 1) \<le> of_int n" and "of_int n < (2::real) powi (bitlen n)"
proof -
  from bitlen_bounds[OF assms] have lo: "2 ^ nat (bitlen n - 1) \<le> n" and hi: "n < 2 ^ nat (bitlen n)"
    by auto
  have pos: "0 < bitlen n"
    using assms bitlen_eq_zero_iff[of n] bitlen_nonneg[of n] by linarith
  from lo have "(of_int (2 ^ nat (bitlen n - 1)) :: real) \<le> of_int n" by (simp only: of_int_le_iff)
  then show "(2::real) powi (bitlen n - 1) \<le> of_int n"
    using pos by (simp add: power_int_def)
  from hi have "(of_int n :: real) < of_int (2 ^ nat (bitlen n))" by (simp only: of_int_less_iff)
  then show "of_int n < (2::real) powi (bitlen n)"
    using pos by (simp add: power_int_def)
qed

lemma floor_log2_bounds:
  assumes "0 < x"
  shows "2 powi (floor_log2 x) \<le> x" and "x < 2 powi (floor_log2 x + 1)"
proof -
  show "2 powi (floor_log2 x) \<le> x"
  proof (cases "1 \<le> x")
    case True
    then have n: "0 < \<lfloor>x\<rfloor>" by linarith
    have "(2::real) powi (bitlen \<lfloor>x\<rfloor> - 1) \<le> of_int \<lfloor>x\<rfloor>" by (rule bitlen_pow_bounds(1)[OF n])
    also have "\<dots> \<le> x" by linarith
    finally show ?thesis using True by (simp add: floor_log2_def)
  next
    case False
    with assms have y: "1 < 1 / x" by simp
    define c where "c = \<lceil>1 / x\<rceil>"
    from y have c2: "0 < c - 1" unfolding c_def by linarith
    have "1 / x \<le> of_int c" unfolding c_def by linarith
    also have "(of_int (c - 1) :: real) < 2 powi (bitlen (c - 1))"
      by (rule bitlen_pow_bounds(2)[OF c2])
    then have "c - 1 < 2 ^ nat (bitlen (c - 1))"
      using bitlen_bounds[OF c2] by blast
    then have "c \<le> 2 ^ nat (bitlen (c - 1))" by linarith
    then have "(of_int c :: real) \<le> of_int (2 ^ nat (bitlen (c - 1)))" by (simp only: of_int_le_iff)
    then have "(of_int c :: real) \<le> 2 powi (bitlen (c - 1))"
      using bitlen_nonneg[of "c - 1"] by (simp add: power_int_def)
    finally have "1 / x \<le> 2 powi (bitlen (c - 1))" .
    then have "1 / (2 powi (bitlen (c - 1))) \<le> x"
      using assms by (simp add: field_simps)
    then have "2 powi (- bitlen (c - 1)) \<le> x"
      by (simp add: power_int_minus_divide)
    then show ?thesis using False unfolding floor_log2_def c_def by simp
  qed
  show "x < 2 powi (floor_log2 x + 1)"
  proof (cases "1 \<le> x")
    case True
    then have n: "0 < \<lfloor>x\<rfloor>" by linarith
    have "x < of_int \<lfloor>x\<rfloor> + 1" by linarith
    then have "x < of_int (\<lfloor>x\<rfloor> + 1)" by simp
    also have "\<lfloor>x\<rfloor> + 1 \<le> 2 ^ nat (bitlen \<lfloor>x\<rfloor>)"
      using bitlen_bounds[OF n] by linarith
    then have "(of_int (\<lfloor>x\<rfloor> + 1) :: real) \<le> of_int (2 ^ nat (bitlen \<lfloor>x\<rfloor>))"
      by (simp only: of_int_le_iff)
    also have "\<dots> = 2 powi (bitlen \<lfloor>x\<rfloor>)"
      using bitlen_nonneg[of "\<lfloor>x\<rfloor>"] by (simp add: power_int_def)
    finally show ?thesis using True by (simp add: floor_log2_def)
  next
    case False
    with assms have y: "1 < 1 / x" by simp
    define c where "c = \<lceil>1 / x\<rceil>"
    from y have c2: "0 < c - 1" unfolding c_def by linarith
    have "(2::real) powi (bitlen (c - 1) - 1) \<le> of_int (c - 1)"
      by (rule bitlen_pow_bounds(1)[OF c2])
    also have "\<dots> < 1 / x" unfolding c_def by simp linarith
    finally have "(2::real) powi (bitlen (c - 1) - 1) < 1 / x" .
    then have "x < 1 / (2 powi (bitlen (c - 1) - 1))"
      using assms by (simp add: field_simps)
    also have "\<dots> = 2 powi (- bitlen (c - 1) + 1)"
      by (simp add: power_int_minus_divide[symmetric])
    finally show ?thesis using False unfolding floor_log2_def c_def by simp
  qed
qed

lemma floor_log2_unique:
  assumes "0 < x" and "2 powi e \<le> x" and "x < 2 powi (e + 1)"
  shows "floor_log2 x = e"
proof -
  from floor_log2_bounds[OF assms(1)] assms(2,3)
  have "(2::real) powi e < 2 powi (floor_log2 x + 1)" and "(2::real) powi (floor_log2 x) < 2 powi (e + 1)"
    by linarith+
  then have "e < floor_log2 x + 1" and "floor_log2 x < e + 1"
    by (simp_all add: two_powi_less_iff)
  then show ?thesis by linarith
qed

lemma round_half_even_near: "\<bar>of_int (round_half_even y) - y\<bar> \<le> 1 / 2"
proof -
  have lo: "of_int \<lfloor>y\<rfloor> \<le> y" and hi: "y < of_int \<lfloor>y\<rfloor> + 1"
    by linarith+
  show ?thesis
    unfolding round_half_even_def Let_def using lo hi
    by (simp add: abs_le_iff)
qed

lemma round_half_even_floor: "\<lfloor>y\<rfloor> \<le> round_half_even y" "round_half_even y \<le> \<lfloor>y\<rfloor> + 1"
  unfolding round_half_even_def Let_def by auto

lemma round_half_even_of_int: "round_half_even (of_int n) = n"
  unfolding round_half_even_def Let_def by simp

lemma round_half_even_ge: "of_int n \<le> y \<Longrightarrow> n \<le> round_half_even y"
proof -
  assume "of_int n \<le> y"
  then have "n \<le> \<lfloor>y\<rfloor>" by (simp add: le_floor_iff)
  with round_half_even_floor(1)[of y] show ?thesis by linarith
qed

lemma round_half_even_le: "y \<le> of_int n \<Longrightarrow> round_half_even y \<le> n"
proof (cases "y = of_int n")
  case True
  then show ?thesis by (simp add: round_half_even_of_int)
next
  case False
  assume "y \<le> of_int n"
  with False have "y < of_int n" by simp
  then have "\<lfloor>y\<rfloor> < n" by (simp add: floor_less_iff)
  with round_half_even_floor(2)[of y] show ?thesis by linarith
qed

lemma round_half_even_nonneg: "0 \<le> y \<Longrightarrow> 0 \<le> round_half_even y"
  using round_half_even_ge[of 0 y] by simp

lemma ulp_of_pos: "0 < ulp_of a"
  by (simp add: ulp_of_def)

lemma round_mag_nonneg: "0 \<le> a \<Longrightarrow> 0 \<le> round_mag a"
  unfolding round_mag_def using ulp_of_pos[of a]
  by (simp add: round_half_even_nonneg)

lemma ulp_of_le:
  assumes "2 powi (- 1074) \<le> a"
  shows "ulp_of a \<le> a"
proof -
  have pos: "0 < a" using assms zero_less_power_int[of "2::real" "- 1074"] by linarith
  show ?thesis
  proof (cases "floor_log2 a \<le> - 1022")
    case True
    then have "ulp_of a = 2 powi (- 1074)" by (simp add: ulp_of_def double_exponent_def max_def)
    with assms show ?thesis by simp
  next
    case False
    then have "ulp_of a = 2 powi (floor_log2 a - 52)"
      by (simp add: ulp_of_def double_exponent_def max_def)
    also have "\<dots> \<le> 2 powi (floor_log2 a)" by (simp add: two_powi_le_iff)
    also have "\<dots> \<le> a" by (rule floor_log2_bounds(1)[OF pos])
    finally show ?thesis .
  qed
qed

lemma round_mag_ge_ulp:
  assumes "2 powi (- 1074) \<le> a"
  shows "ulp_of a \<le> round_mag a"
proof -
  from ulp_of_le[OF assms] ulp_of_pos[of a] have "of_int 1 \<le> a / ulp_of a"
    by (simp add: field_simps)
  then have "1 \<le> round_half_even (a / ulp_of a)" by (rule round_half_even_ge)
  then have "(1::real) \<le> of_int (round_half_even (a / ulp_of a))" by simp
  then have "1 * ulp_of a \<le> of_int (round_half_even (a / ulp_of a)) * ulp_of a"
    using ulp_of_pos[of a] by (intro mult_right_mono) simp_all
  then show ?thesis by (simp add: round_mag_def)
qed

lemma two_powi_53: "(2::real) powi 53 * 2 powi (e - 52) = 2 powi (e + 1)"
proof -
  have "e + 1 = 53 + (e - 52)" by arith
  then have "(2::real) powi (e + 1) = 2 powi (53 + (e - 52))" by (rule arg_cong)
  also have "\<dots> = 2 powi 53 * 2 powi (e - 52)" by (rule power_int_add) simp
  finally show ?thesis by (rule sym)
qed

lemma two_powi_52: "(2::real) powi 52 * 2 powi (e - 52) = 2 powi e"
proof -
  have "e = 52 + (e - 52)" by arith
  then have "(2::real) powi e = 2 powi (52 + (e - 52))" by (rule arg_cong)
  also have "\<dots> = 2 powi 52 * 2 powi (e - 52)" by (rule power_int_add) simp
  finally show ?thesis by (rule sym)
qed

lemma floor_log2_mono:
  assumes "0 < a" and "a \<le> z"
  shows "floor_log2 a \<le> floor_log2 z"
proof -
  from assms have z: "0 < z" by simp
  from floor_log2_bounds(1)[OF assms(1)] assms(2) floor_log2_bounds(2)[OF z]
  have "(2::real) powi (floor_log2 a) < 2 powi (floor_log2 z + 1)" by linarith
  then show ?thesis by (simp add: two_powi_less_iff)
qed

lemma double_exponent_mono:
  assumes "0 < a" and "a \<le> z"
  shows "double_exponent a \<le> double_exponent z"
  using floor_log2_mono[OF assms] by (simp add: double_exponent_def)

lemma double_exponent_ge: "- 1022 \<le> double_exponent a"
  by (simp add: double_exponent_def)

lemma below_next_power:
  assumes "0 < a"
  shows "a < 2 powi (double_exponent a + 1)"
proof -
  have "a < 2 powi (floor_log2 a + 1)" by (rule floor_log2_bounds(2)[OF assms])
  also have "\<dots> \<le> 2 powi (double_exponent a + 1)"
    by (simp add: two_powi_le_iff double_exponent_def)
  finally show ?thesis .
qed

lemma round_mag_le_next_power:
  assumes "0 < a"
  shows "round_mag a \<le> 2 powi (double_exponent a + 1)"
proof -
  define e where "e = double_exponent a"
  have u: "ulp_of a = 2 powi (e - 52)" by (simp add: ulp_of_def e_def)
  have "a / ulp_of a < 2 powi (e + 1) / 2 powi (e - 52)"
    using below_next_power[OF assms] unfolding u e_def
    by (intro divide_strict_right_mono) simp_all
  also have "\<dots> = 2 powi 53" by (simp add: power_int_diff[symmetric])
  finally have "a / ulp_of a \<le> of_int (2 ^ 53)" by simp
  then have "round_half_even (a / ulp_of a) \<le> 2 ^ 53" by (rule round_half_even_le)
  then have "(of_int (round_half_even (a / ulp_of a)) :: real) \<le> of_int (2 ^ 53)"
    by (simp only: of_int_le_iff)
  then have "of_int (round_half_even (a / ulp_of a)) * ulp_of a \<le> of_int (2 ^ 53) * ulp_of a"
    using ulp_of_pos[of a] by (intro mult_right_mono) simp_all
  also have "\<dots> = 2 powi 53 * 2 powi (e - 52)" unfolding u by simp
  also have "\<dots> = 2 powi (e + 1)" by (rule two_powi_53)
  finally show ?thesis by (simp add: round_mag_def e_def)
qed

lemma round_mag_ge_power:
  assumes "0 < a" and "- 1022 \<le> floor_log2 a"
  shows "2 powi (double_exponent a) \<le> round_mag a"
proof -
  define e where "e = double_exponent a"
  from assms(2) have ef: "e = floor_log2 a" by (simp add: e_def double_exponent_def)
  have u: "ulp_of a = 2 powi (e - 52)" by (simp add: ulp_of_def e_def)
  have "2 powi e \<le> a" unfolding ef by (rule floor_log2_bounds(1)[OF assms(1)])
  then have "2 powi e / 2 powi (e - 52) \<le> a / ulp_of a"
    unfolding u by (intro divide_right_mono) simp_all
  moreover have "(2::real) powi e / 2 powi (e - 52) = 2 powi 52"
    by (simp add: power_int_diff[symmetric])
  ultimately have "of_int (2 ^ 52) \<le> a / ulp_of a" by simp
  then have "2 ^ 52 \<le> round_half_even (a / ulp_of a)" by (rule round_half_even_ge)
  then have "(of_int (2 ^ 52) :: real) \<le> of_int (round_half_even (a / ulp_of a))"
    by (simp only: of_int_le_iff)
  then have "of_int (2 ^ 52) * ulp_of a \<le> of_int (round_half_even (a / ulp_of a)) * ulp_of a"
    using ulp_of_pos[of a] by (intro mult_right_mono) simp_all
  moreover have "of_int (2 ^ 52) * ulp_of a = 2 powi 52 * 2 powi (e - 52)" unfolding u by simp
  moreover have "(2::real) powi 52 * 2 powi (e - 52) = 2 powi e" by (rule two_powi_52)
  ultimately show ?thesis by (simp add: round_mag_def e_def)
qed

lemma round_mag_le_representable:
  assumes "0 < a" and "a \<le> z" and "round_mag z = z"
  shows "round_mag a \<le> z"
proof -
  from assms have z: "0 < z" by simp
  have le: "double_exponent a \<le> double_exponent z" by (rule double_exponent_mono[OF assms(1,2)])
  show ?thesis
  proof (cases "double_exponent a = double_exponent z")
    case True
    then have u: "ulp_of a = ulp_of z" by (simp add: ulp_of_def)
    define m where "m = round_half_even (z / ulp_of z)"
    from assms(3) have zm: "z = of_int m * ulp_of z" by (simp add: round_mag_def m_def)
    then have "z / ulp_of z = of_int m" using ulp_of_pos[of z] by (simp add: field_simps)
    with assms(2) have "a / ulp_of z \<le> of_int m"
      using ulp_of_pos[of z] by (metis divide_right_mono less_imp_le)
    then have "round_half_even (a / ulp_of z) \<le> m" by (rule round_half_even_le)
    then have "(of_int (round_half_even (a / ulp_of z)) :: real) \<le> of_int m"
      by (simp only: of_int_le_iff)
    then have "of_int (round_half_even (a / ulp_of z)) * ulp_of z \<le> of_int m * ulp_of z"
      using ulp_of_pos[of z] by (intro mult_right_mono) simp_all
    with zm show ?thesis by (simp add: round_mag_def u)
  next
    case False
    with le have lt: "double_exponent a < double_exponent z" by simp
    with double_exponent_ge[of a] have "double_exponent z = floor_log2 z"
      by (simp add: double_exponent_def max_def split: if_splits)
    then have "2 powi (double_exponent z) \<le> z" using floor_log2_bounds(1)[OF z] by simp
    moreover have "(2::real) powi (double_exponent a + 1) \<le> 2 powi (double_exponent z)"
      using lt by (simp add: two_powi_le_iff)
    ultimately show ?thesis using round_mag_le_next_power[OF assms(1)] by linarith
  qed
qed

lemma round_mag_ge_representable:
  assumes "0 < z" and "z \<le> a" and "round_mag z = z"
  shows "z \<le> round_mag a"
proof -
  from assms have a: "0 < a" by simp
  have le: "double_exponent z \<le> double_exponent a" by (rule double_exponent_mono[OF assms(1,2)])
  show ?thesis
  proof (cases "double_exponent z = double_exponent a")
    case True
    then have u: "ulp_of z = ulp_of a" by (simp add: ulp_of_def)
    define m where "m = round_half_even (z / ulp_of z)"
    from assms(3) have zm: "z = of_int m * ulp_of a" by (simp add: round_mag_def m_def u)
    then have "z / ulp_of a = of_int m" using ulp_of_pos[of a] by (simp add: field_simps)
    with assms(2) have "of_int m \<le> a / ulp_of a"
      using ulp_of_pos[of a] by (metis divide_right_mono less_imp_le)
    then have "m \<le> round_half_even (a / ulp_of a)" by (rule round_half_even_ge)
    then have "(of_int m :: real) \<le> of_int (round_half_even (a / ulp_of a))"
      by (simp only: of_int_le_iff)
    then have "of_int m * ulp_of a \<le> of_int (round_half_even (a / ulp_of a)) * ulp_of a"
      using ulp_of_pos[of a] by (intro mult_right_mono) simp_all
    with zm show ?thesis by (simp add: round_mag_def)
  next
    case False
    with le have lt: "double_exponent z < double_exponent a" by simp
    with double_exponent_ge[of z] have ea: "double_exponent a = floor_log2 a"
      by (simp add: double_exponent_def max_def split: if_splits)
    with double_exponent_ge[of a] have "- 1022 \<le> floor_log2 a" by simp
    from round_mag_ge_power[OF a this] have "2 powi (double_exponent a) \<le> round_mag a" .
    moreover have "(2::real) powi (double_exponent z + 1) \<le> 2 powi (double_exponent a)"
      using lt by (simp add: two_powi_le_iff)
    ultimately show ?thesis using below_next_power[OF assms(1)] by linarith
  qed
qed

lemma two_powi_Suc: "(2::real) powi (k + 1) = 2 * 2 powi k"
  by (simp add: power_int_add)

lemma floor_log2_double:
  assumes "2 powi (- 1022) \<le> a"
  shows "floor_log2 (2 * a) = floor_log2 a + 1" and "- 1022 \<le> floor_log2 a"
proof -
  have pos: "0 < a" using assms zero_less_power_int[of "2::real" "- 1022"] by linarith
  from floor_log2_bounds[OF pos] have lo: "2 powi (floor_log2 a) \<le> a"
    and hi: "a < 2 powi (floor_log2 a + 1)" by simp_all
  from assms hi have "(2::real) powi (- 1022) < 2 powi (floor_log2 a + 1)" by linarith
  then have "- 1022 < floor_log2 a + 1" by (simp only: two_powi_less_iff)
  then show "- 1022 \<le> floor_log2 a" by linarith
  show "floor_log2 (2 * a) = floor_log2 a + 1"
  proof (rule floor_log2_unique)
    show "0 < 2 * a" using pos by simp
    show "2 powi (floor_log2 a + 1) \<le> 2 * a"
      using lo two_powi_Suc[of "floor_log2 a"] by linarith
    show "2 * a < 2 powi (floor_log2 a + 1 + 1)"
      using hi two_powi_Suc[of "floor_log2 a + 1"] by linarith
  qed
qed

lemma round_mag_double:
  assumes "2 powi (- 1022) \<le> a"
  shows "round_mag (2 * a) = 2 * round_mag a"
proof -
  from floor_log2_double[OF assms]
  have e2: "double_exponent (2 * a) = double_exponent a + 1"
    by (simp add: double_exponent_def max_def)
  have "double_exponent a + 1 - 52 = double_exponent a - 52 + 1" by arith
  then have "ulp_of (2 * a) = 2 powi (double_exponent a - 52 + 1)"
    by (simp only: ulp_of_def e2)
  also have "\<dots> = 2 * ulp_of a" unfolding ulp_of_def by (rule two_powi_Suc)
  finally have u: "ulp_of (2 * a) = 2 * ulp_of a" .
  then show ?thesis by (simp add: round_mag_def)
qed

lemma round_mag_power:
  assumes "- 1074 \<le> i"
  shows "round_mag (2 powi i) = 2 powi i"
proof -
  have fl: "floor_log2 (2 powi i) = i"
    by (rule floor_log2_unique) (simp_all add: two_powi_less_iff)
  define e where "e = double_exponent (2 powi i)"
  have e: "e = max i (- 1022)" by (simp add: e_def double_exponent_def fl)
  define k where "k = i - (e - 52)"
  from assms e have k0: "0 \<le> k" by (simp add: k_def max_def split: if_splits)
  have u: "ulp_of (2 powi i) = 2 powi (e - 52)" by (simp add: ulp_of_def e_def)
  have "(2::real) powi i / 2 powi (e - 52) = 2 powi k"
    by (simp add: k_def power_int_diff)
  also have "\<dots> = of_int (2 ^ nat k)" using k0 by (simp add: power_int_def)
  finally have q: "(2::real) powi i / 2 powi (e - 52) = of_int (2 ^ nat k)" .
  have "round_mag (2 powi i) = of_int (2 ^ nat k) * 2 powi (e - 52)"
    unfolding round_mag_def u q round_half_even_of_int ..
  also have "\<dots> = (2 powi i / 2 powi (e - 52)) * 2 powi (e - 52)" by (simp only: q)
  also have "\<dots> = 2 powi i" by simp
  finally show ?thesis .
qed

lemma nearest_double_pos:
  assumes "0 < x"
  shows "nearest_double x = (if 2 ^ 1024 \<le> round_mag x then PosInf else Fin (round_mag x))"
  using assms by (simp add: nearest_double_def Let_def)

lemma nearest_double_neg:
  assumes "x < 0"
  shows "nearest_double x = (if 2 ^ 1024 \<le> round_mag (- x) then NegInf else Fin (- round_mag (- x)))"
  using assms by (simp add: nearest_double_def Let_def)

lemma nearest_double_nonneg:
  assumes "0 \<le> x"
  shows "float_ge_zero (nearest_double x)"
proof (cases "x = 0")
  case True
  then show ?thesis by (simp add: nearest_double_def)
next
  case False
  with assms have "0 < x" by simp
  with round_mag_nonneg[of x] show ?thesis by (simp add: nearest_double_pos)
qed

lemma nearest_double_not_zero:
  assumes "2 powi (- 1074) \<le> \<bar>x\<bar>"
  shows "nearest_double x \<noteq> Fin 0"
proof -
  have p: "0 < \<bar>x\<bar>" using assms zero_less_power_int[of "2::real" "- 1074"] by linarith
  from round_mag_ge_ulp[OF assms] ulp_of_pos[of "\<bar>x\<bar>"] have m: "0 < round_mag \<bar>x\<bar>" by linarith
  from p have "x \<noteq> 0" by simp
  with m show ?thesis by (auto simp: nearest_double_def Let_def)
qed

lemma is_double_pos_iff:
  assumes "0 < z"
  shows "is_double z \<longleftrightarrow> round_mag z = z \<and> z < 2 ^ 1024"
  using assms by (auto simp: is_double_def nearest_double_pos)

lemma is_double_neg_iff:
  assumes "z < 0"
  shows "is_double z \<longleftrightarrow> round_mag (- z) = - z \<and> - z < 2 ^ 1024"
  using assms by (auto simp: is_double_def nearest_double_neg)

lemma is_double_abs:
  assumes "is_double z" and "z \<noteq> 0"
  shows "round_mag \<bar>z\<bar> = \<bar>z\<bar>" and "\<bar>z\<bar> < 2 ^ 1024"
  using assms is_double_pos_iff[of z] is_double_neg_iff[of z]
  by (cases "0 < z"; simp)+

lemma is_double_ge_min:
  assumes "is_double z" and "z \<noteq> 0"
  shows "2 powi (- 1074) \<le> \<bar>z\<bar>"
proof -
  define m where "m = round_half_even (\<bar>z\<bar> / ulp_of \<bar>z\<bar>)"
  from is_double_abs(1)[OF assms] have zm: "\<bar>z\<bar> = of_int m * ulp_of \<bar>z\<bar>"
    by (simp add: round_mag_def m_def)
  have "0 < of_int m * ulp_of \<bar>z\<bar>" using assms(2) zm by simp
  then have "0 < (of_int m :: real)" using ulp_of_pos[of "\<bar>z\<bar>"] by (simp add: zero_less_mult_iff)
  then have "1 \<le> m" by simp
  then have "(1::real) \<le> of_int m" by simp
  then have "1 * ulp_of \<bar>z\<bar> \<le> of_int m * ulp_of \<bar>z\<bar>"
    using ulp_of_pos[of "\<bar>z\<bar>"] by (intro mult_right_mono) simp_all
  with zm have "ulp_of \<bar>z\<bar> \<le> \<bar>z\<bar>" by simp
  moreover have "2 powi (- 1074) \<le> ulp_of \<bar>z\<bar>"
    unfolding ulp_of_def two_powi_le_iff using double_exponent_ge[of "\<bar>z\<bar>"] by linarith
  ultimately show ?thesis by linarith
qed

lemma nearest_double_below_double:
  assumes "0 < x" and "x \<le> z" and "is_double z"
  shows "\<exists>y. nearest_double x = Fin y \<and> 0 \<le> y \<and> y \<le> z"
proof -
  from assms have z: "0 < z" by simp
  from assms(3) z have rz: "round_mag z = z" and fz: "z < 2 ^ 1024"
    by (simp_all add: is_double_pos_iff)
  from round_mag_le_representable[OF assms(1,2) rz] have le: "round_mag x \<le> z" .
  with fz have "\<not> 2 ^ 1024 \<le> round_mag x" by simp
  with le round_mag_nonneg[of x] assms(1) show ?thesis by (simp add: nearest_double_pos)
qed

lemma two_powi_1024: "(2::real) powi 1024 = 2 ^ 1024"
  by (rule power_int_numeral)

lemma below_overflow:
  fixes y :: real
  assumes "y \<le> 2 powi j" and "j \<le> 1023"
  shows "\<not> 2 ^ 1024 \<le> y"
proof -
  from assms(2) have "(2::real) powi j < 2 powi 1024" by (simp only: two_powi_less_iff)
  with assms(1) have "y < 2 powi 1024" by linarith
  then show ?thesis unfolding two_powi_1024 by simp
qed

lemma round_mag_eval:
  assumes "0 < x" and "2 powi e \<le> x" and "x < 2 powi (e + 1)" and "- 1022 \<le> e"
  shows "round_mag x = of_int (round_half_even (x / 2 powi (e - 52))) * 2 powi (e - 52)"
proof -
  have "floor_log2 x = e" by (rule floor_log2_unique[OF assms(1-3)])
  with assms(4) have "double_exponent x = e" by (simp add: double_exponent_def)
  then show ?thesis by (simp only: round_mag_def ulp_of_def)
qed

lemma nearest_double_eval:
  assumes "0 < x" and "2 powi e \<le> x" and "x < 2 powi (e + 1)" and "- 1022 \<le> e" and "e \<le> 1022"
  shows "nearest_double x = Fin (of_int (round_half_even (x / 2 powi (e - 52))) * 2 powi (e - 52))"
proof -
  have "floor_log2 x = e" by (rule floor_log2_unique[OF assms(1-3)])
  with assms(4) have de: "double_exponent x = e" by (simp add: double_exponent_def)
  from round_mag_le_next_power[OF assms(1)] have "round_mag x \<le> 2 powi (e + 1)" by (simp only: de)
  moreover from assms(5) have "e + 1 \<le> 1023" by simp
  ultimately have "\<not> 2 ^ 1024 \<le> round_mag x" by (rule below_overflow)
  with assms(1) round_mag_eval[OF assms(1-4)] show ?thesis by (simp add: nearest_double_pos)
qed

lemma nearest_double_minus:
  assumes "nearest_double x = Fin y"
  shows "nearest_double (- x) = Fin (- y)"
proof (cases "x = 0")
  case True
  with assms show ?thesis by (simp add: nearest_double_def)
next
  case False
  then show ?thesis using assms
    by (cases "0 < x") (auto simp: nearest_double_def Let_def split: if_splits)
qed

lemma round_mag_exact:
  assumes "0 < m" and "m < 2 ^ 53" and "- 1074 \<le> k"
  shows "round_mag (of_int m * 2 powi k) = of_int m * 2 powi k"
proof -
  define z :: real where "z = of_int m * 2 powi k"
  have zpos: "0 < z" using assms(1) by (simp add: z_def)
  have "(of_int m :: real) < of_int (2 ^ 53)" using assms(2) by (simp only: of_int_less_iff)
  then have "(of_int m :: real) < 2 powi 53" by simp
  then have "z < 2 powi 53 * 2 powi k" unfolding z_def
    by (intro mult_strict_right_mono) simp_all
  also have "(2::real) powi 53 * 2 powi k = 2 powi (53 + k)" by (rule power_int_add[symmetric]) simp
  finally have zlt: "z < 2 powi (53 + k)" .
  from floor_log2_bounds(1)[OF zpos] zlt have "(2::real) powi (floor_log2 z) < 2 powi (53 + k)"
    by linarith
  then have "floor_log2 z < 53 + k" by (simp only: two_powi_less_iff)
  with assms(3) have e: "double_exponent z - 52 \<le> k" by (simp add: double_exponent_def)
  define j where "j = k - (double_exponent z - 52)"
  from e have j0: "0 \<le> j" by (simp add: j_def)
  have "k = j + (double_exponent z - 52)" by (simp add: j_def)
  then have "(2::real) powi k = 2 powi (j + (double_exponent z - 52))" by (rule arg_cong)
  also have "\<dots> = 2 powi j * 2 powi (double_exponent z - 52)" by (rule power_int_add) simp
  also have "(2::real) powi j = of_int (2 ^ nat j)" using j0 by (simp add: power_int_def)
  finally have pk: "(2::real) powi k = of_int (2 ^ nat j) * ulp_of z" by (simp only: ulp_of_def)
  have "z = of_int m * 2 powi k" by (rule z_def)
  also have "\<dots> = of_int m * (of_int (2 ^ nat j) * ulp_of z)" using pk by (rule arg_cong)
  also have "\<dots> = of_int (m * 2 ^ nat j) * ulp_of z" by simp
  finally have zm: "z = of_int (m * 2 ^ nat j) * ulp_of z" .
  then have "z / ulp_of z = of_int (m * 2 ^ nat j)" using ulp_of_pos[of z] by (simp add: field_simps)
  then have rz: "round_mag z = of_int (m * 2 ^ nat j) * ulp_of z"
    by (simp only: round_mag_def round_half_even_of_int)
  have "round_mag z = z" by (rule trans[OF rz zm[symmetric]])
  then show ?thesis unfolding z_def .
qed

lemma nearest_double_exact:
  assumes "0 < m" and "m < 2 ^ 53" and "- 1074 \<le> k" and "k \<le> 970"
  shows "nearest_double (of_int m * 2 powi k) = Fin (of_int m * 2 powi k)"
proof -
  define z :: real where "z = of_int m * 2 powi k"
  have zpos: "0 < z" using assms(1) by (simp add: z_def)
  from assms(2) have "m \<le> 2 ^ 53" by simp
  then have "(of_int m :: real) \<le> of_int (2 ^ 53)" by (simp only: of_int_le_iff)
  then have "(of_int m :: real) \<le> 2 powi 53" by simp
  then have "z \<le> 2 powi 53 * 2 powi k" unfolding z_def
    by (intro mult_right_mono) simp_all
  also have "(2::real) powi 53 * 2 powi k = 2 powi (53 + k)" by (rule power_int_add[symmetric]) simp
  finally have "z \<le> 2 powi (53 + k)" .
  moreover from assms(4) have "53 + k \<le> 1023" by simp
  ultimately have "\<not> 2 ^ 1024 \<le> z" by (rule below_overflow)
  moreover have "round_mag z = z" unfolding z_def by (rule round_mag_exact[OF assms(1-3)])
  ultimately show ?thesis using zpos unfolding z_def[symmetric] by (simp add: nearest_double_pos)
qed

lemma round_half_even_eq:
  assumes "of_int n - 1 / 2 < y" and "y < of_int n + 1 / 2"
  shows "round_half_even y = n"
proof -
  from round_half_even_near[of y] assms
  have "(of_int (round_half_even y) :: real) < of_int n + 1"
    and "(of_int n :: real) < of_int (round_half_even y) + 1"
    by linarith+
  then have "(of_int (round_half_even y) :: real) < of_int (n + 1)"
    and "(of_int n :: real) < of_int (round_half_even y + 1)" by simp_all
  then have "round_half_even y < n + 1" and "n < round_half_even y + 1"
    by (simp_all only: of_int_less_iff)
  then show ?thesis by linarith
qed

lemma nearest_double_between_powers:
  assumes "2 powi i \<le> x" and "x \<le> 2 powi j" and "- 1074 \<le> i" and "j \<le> 1023"
  shows "\<exists>y. nearest_double x = Fin y \<and> 2 powi i \<le> y \<and> y \<le> 2 powi j"
proof -
  have xpos: "0 < x" using assms(1) zero_less_power_int[of "2::real" i] by linarith
  from assms(1,2) have "(2::real) powi i \<le> 2 powi j" by linarith
  then have "i \<le> j" by (simp only: two_powi_le_iff)
  with assms(3) have j: "- 1074 \<le> j" by simp
  have up: "round_mag x \<le> 2 powi j"
    by (rule round_mag_le_representable[OF xpos assms(2) round_mag_power[OF j]])
  have lo: "2 powi i \<le> round_mag x"
    by (rule round_mag_ge_representable[OF _ assms(1) round_mag_power[OF assms(3)]]) simp
  from below_overflow[OF up assms(4)] xpos lo up show ?thesis
    by (simp add: nearest_double_pos)
qed

lemma float_round_nonneg:
  assumes "float_ge_zero v"
  shows "float_ge_zero (float_round v n)"
proof (cases v)
  case (Fin x)
  with assms have "0 \<le> x" by simp
  then have "0 \<le> round_half_even (x * 10 ^ n)" by (intro round_half_even_nonneg) simp
  then have "(0::real) \<le> of_int (round_half_even (x * 10 ^ n)) / 10 ^ n" by simp
  then show ?thesis unfolding Fin float_round.simps by (rule nearest_double_nonneg)
qed (use assms in simp_all)

lemma float_truediv_error_iff:
  "float_truediv a b = Inl e \<longleftrightarrow> b = Fin 0 \<and> e = ZeroDivisionError"
  by (cases a; cases b) (auto split: py_float.splits)

lemma float_mul_ten_zero_iff:
  assumes "is_float d"
  shows "float_mul d (Fin 10) = Fin 0 \<longleftrightarrow> d = Fin 0"
proof (cases d)
  case (Fin x)
  show ?thesis
  proof (cases "x = 0")
    case True
    with Fin show ?thesis by (simp add: nearest_double_def)
  next
    case False
    from assms Fin have "is_double x" by simp
    from is_double_ge_min[OF this False] have "2 powi (- 1074) \<le> \<bar>x\<bar>" .
    moreover have "\<bar>x\<bar> \<le> \<bar>x * 10\<bar>" by (simp add: abs_mult)
    ultimately have "2 powi (- 1074) \<le> \<bar>x * 10\<bar>" by linarith
    from nearest_double_not_zero[OF this] Fin False show ?thesis by simp
  qed
qed simp_all

lemma calculate_lot_size_error_iff:
  assumes "is_float d"
  shows "calculate_lot_size b r d = Inl e \<longleftrightarrow> d = Fin 0 \<and> e = ZeroDivisionError"
proof -
  have "calculate_lot_size b r d = Inl e \<longleftrightarrow>
        float_truediv (float_mul b r) (float_mul d (Fin 10)) = Inl e"
    by (simp add: calculate_lot_size_def split: sum.splits)
  also have "\<dots> \<longleftrightarrow> float_mul d (Fin 10) = Fin 0 \<and> e = ZeroDivisionError"
    by (rule float_truediv_error_iff)
  also have "\<dots> \<longleftrightarrow> d = Fin 0 \<and> e = ZeroDivisionError"
    by (simp only: float_mul_ten_zero_iff[OF assms])
  finally show ?thesis .
qed


lemma two_powi_mono: "m \<le> n \<Longrightarrow> (2::real) powi m \<le> 2 powi n"
  by (simp only: two_powi_le_iff)

lemma nearest_double_twice:
  assumes "2 powi (- 1022) \<le> x" and "nearest_double x = Fin y" and "y \<le> 2 powi j" and "j \<le> 1022"
  shows "nearest_double (2 * x) = Fin (2 * y)"
proof -
  have xpos: "0 < x" using assms(1) zero_less_power_int[of "2::real" "- 1022"] by linarith
  from assms(2) xpos have y: "round_mag x = y"
    by (simp add: nearest_double_pos split: if_splits)
  have r2: "round_mag (2 * x) = 2 * y" using round_mag_double[OF assms(1)] y by simp
  have "2 * y \<le> 2 * 2 powi j" using assms(3) by simp
  also have "\<dots> = 2 powi (j + 1)" by (rule two_powi_Suc[symmetric])
  finally have "round_mag (2 * x) \<le> 2 powi (j + 1)" using r2 by simp
  moreover from assms(4) have "j + 1 \<le> 1023" by simp
  ultimately have "\<not> 2 ^ 1024 \<le> round_mag (2 * x)" by (rule below_overflow)
  with xpos r2 show ?thesis by (simp add: nearest_double_pos)
qed

lemma hundredths_under_doubling:
  fixes l :: real
  shows "\<bar>round_half_even (2 * l * 100) - 2 * round_half_even (l * 100)\<bar> \<le> 1"
proof -
  define k1 where "k1 = round_half_even (l * 100)"
  define k2 where "k2 = round_half_even (2 * l * 100)"
  have a: "\<bar>of_int k1 - l * 100\<bar> \<le> 1 / 2" unfolding k1_def by (rule round_half_even_near)
  have b: "\<bar>of_int k2 - 2 * l * 100\<bar> \<le> 1 / 2" unfolding k2_def by (rule round_half_even_near)
  from a b have "\<bar>(of_int k2 :: real) - 2 * of_int k1\<bar> \<le> 3 / 2" by linarith
  then have "\<bar>(of_int (k2 - 2 * k1) :: real)\<bar> < of_int 2" by simp
  then have "(of_int \<bar>k2 - 2 * k1\<bar> :: real) < of_int 2" by (simp only: of_int_abs)
  then have "\<bar>k2 - 2 * k1\<bar> < 2" by (simp only: of_int_less_iff)
  then show ?thesis unfolding k1_def k2_def by simp
qed

subsection \<open>The loop over the pairs\<close>

lemma PAIRS_distinct: "distinct PAIRS"
  by (simp add: PAIRS_def)

lemma try_body_forms:
  assumes "try_body self p w = (evs, w', r)"
  shows "evs = [FetchCandles p ''H1'' 100]
       \<or> evs = [FetchCandles p ''H1'' 100, GenerateSignal p]
       \<or> (\<exists>d. evs = [FetchCandles p ''H1'' 100, GenerateSignal p, LogInfoSignal p d])"
  using assms unfolding try_body_def
  by (auto split: prod.splits sum.splits py_signal.splits if_splits)








lemma process_pair_forms:
  assumes "process_pair self p w = (evs, w', r)"
  shows "\<exists>evs0 r0. try_body self p w = (evs0, w', r0) \<and>
           (evs = evs0 \<or> (\<exists>e. evs = evs0 @ [LogError p e]))"
  using assms unfolding process_pair_def
  by (auto split: prod.splits option.splits if_splits)

lemma process_pair_events:
  assumes "process_pair self p w = (evs, w', r)"
  shows "(\<forall>e\<in>set evs. event_pair e = Some p \<and> \<not> is_trader_call e)
       \<and> length (filter (is_fetch_for q) evs) = (if q = p then 1 else 0)
       \<and> length (filter (is_error_for p) evs) \<le> 1"
proof -
  from process_pair_forms[OF assms] obtain evs0 r0 where
    t: "try_body self p w = (evs0, w', r0)" and
    c: "evs = evs0 \<or> (\<exists>e. evs = evs0 @ [LogError p e])" by blast
  from try_body_forms[OF t] c show ?thesis by auto
qed

lemma for_pairs_append:
  "for_pairs self (xs @ ys) w =
     (case for_pairs self xs w of
        (evs1, w1, Some e) \<Rightarrow> (evs1, w1, Some e)
      | (evs1, w1, None) \<Rightarrow>
          (case for_pairs self ys w1 of (evs2, w2, r) \<Rightarrow> (evs1 @ evs2, w2, r)))"
  by (induction xs arbitrary: w)
     (auto split: prod.splits sum.splits option.splits)

lemma for_pairs_events:
  assumes "for_pairs self ps w = (evs, w', r)" and "e \<in> set evs"
  shows "\<not> is_trader_call e \<and> (\<exists>q\<in>set ps. event_pair e = Some q \<and> admitted self q)"
  using assms
proof (induction ps arbitrary: w evs w' r)
  case Nil
  then show ?case by simp
next
  case (Cons p ps)
  show ?case
  proof (cases "active_positions self p")
    case None
    with Cons.prems show ?thesis by (simp add: dict_subscript_def)
  next
    case (Some n)
    show ?thesis
    proof (cases "n \<ge> MAX_CONCURRENT_TRADES_PER_PAIR")
      case True
      with Some Cons.prems have "for_pairs self ps w = (evs, w', r)"
        by (simp add: dict_subscript_def)
      from Cons.IH[OF this Cons.prems(2)] show ?thesis by auto
    next
      case False
      with Some have adm: "admitted self p" by (auto simp: admitted_def)
      obtain evp w1 rp where pp: "process_pair self p w = (evp, w1, rp)"
        by (cases "process_pair self p w") auto
      show ?thesis
      proof (cases rp)
        case (Some x)
        with pp False \<open>active_positions self p = Some n\<close> Cons.prems
        have "evs = evp" by (simp add: dict_subscript_def)
        with process_pair_events[OF pp] Cons.prems(2) adm show ?thesis by auto
      next
        case None
        obtain evs2 w2 r2 where fp: "for_pairs self ps w1 = (evs2, w2, r2)"
          by (cases "for_pairs self ps w1") auto
        with None pp False \<open>active_positions self p = Some n\<close> Cons.prems
        have "evs = evp @ evs2" by (simp add: dict_subscript_def)
        with Cons.prems(2) have "e \<in> set evp \<or> e \<in> set evs2" by auto
        then show ?thesis
        proof
          assume "e \<in> set evp"
          with process_pair_events[OF pp] adm show ?thesis by auto
        next
          assume "e \<in> set evs2"
          from Cons.IH[OF fp this] show ?thesis by auto
        qed
      qed
    qed
  qed
qed


lemma event_pair_of_tests:
  "is_fetch_for q e \<Longrightarrow> event_pair e = Some q"
  "is_generate_for q e \<Longrightarrow> event_pair e = Some q"
  "is_signal_for q e \<Longrightarrow> event_pair e = Some q"
  "is_error_for q e \<Longrightarrow> event_pair e = Some q"
  by (cases e; simp)+

lemma for_pairs_silent:
  assumes "for_pairs self ps w = (evs, w', r)" and "q \<notin> set ps \<or> \<not> admitted self q"
  shows "filter (is_fetch_for q) evs = [] \<and> filter (is_generate_for q) evs = []
       \<and> filter (is_signal_for q) evs = [] \<and> filter (is_error_for q) evs = []"
proof -
  have "\<And>e. e \<in> set evs \<Longrightarrow> event_pair e \<noteq> Some q"
    using for_pairs_events[OF assms(1)] assms(2) by fastforce
  then show ?thesis
    by (auto simp: filter_empty_conv dest: event_pair_of_tests)
qed


lemma for_pairs_split:
  assumes "for_pairs self before w = (evs1, w1, None)"
    and "admitted self p"
    and "process_pair self p w1 = (evp, w2, None)"
    and "for_pairs self after w2 = (evs3, w3, r3)"
  shows "for_pairs self (before @ p # after) w = (evs1 @ evp @ evs3, w3, r3)"
  using assms
  by (auto simp: for_pairs_append admitted_def dict_subscript_def)

lemma run_cycle_in_session:
  assumes "is_trading_session now" and "for_pairs self PAIRS w = (evs, w', r)"
  shows "run_cycle self now w = (self, evs @ (if r = None then [Sleep 60] else []), w', r)"
  using assms by (auto simp: run_cycle_def split: option.splits)

section \<open>The risk sizer\<close>

subsection \<open>Some sizes, computed\<close>

lemma double_500: "nearest_double 500 = Fin 500"
  using nearest_double_exact[of 500 0] by simp

lemma double_200: "nearest_double 200 = Fin 200"
  using nearest_double_exact[of 200 0] by simp

lemma double_2000: "nearest_double 2000 = Fin 2000"
  using nearest_double_exact[of 2000 0] by simp

lemma double_10: "nearest_double 10 = Fin 10"
  using nearest_double_exact[of 10 0] by simp

lemma double_5_2: "nearest_double (5 / 2) = Fin (5 / 2)"
  using nearest_double_exact[of 5 "- 1"] by simp

lemma double_3: "nearest_double 3 = Fin 3"
  using nearest_double_exact[of 3 0] by simp

lemma double_6: "nearest_double 6 = Fin 6"
  using nearest_double_exact[of 6 0] by simp

lemma is_double_examples:
  "is_double 1000" "is_double (1 / 2)" "is_double 20" "is_double (- 20)" "is_double 3"
  "is_double 1" "is_double 50"
  using nearest_double_exact[of 1000 0] nearest_double_exact[of 1 "- 1"]
    nearest_double_exact[of 20 0] nearest_double_minus[OF nearest_double_exact[of 20 0]]
    nearest_double_exact[of 3 0] nearest_double_exact[of 1 0] nearest_double_exact[of 50 0]
  by (simp_all add: is_double_def)

text \<open>The floats \<open>0.01\<close>, \<open>0.005\<close>, \<open>0.006\<close> and \<open>0.012\<close>.\<close>

lemma double_cent: "nearest_double (1 / 100) = Fin (5764607523034235 / 576460752303423488)"
  using nearest_double_eval[of "1 / 100" "- 7"]
  by (simp add: round_half_even_def)

lemma double_half_cent: "nearest_double (1 / 200) = Fin (5764607523034235 / 1152921504606846976)"
  using nearest_double_eval[of "1 / 200" "- 8"]
  by (simp add: round_half_even_def)

lemma double_3_500: "nearest_double (3 / 500) = Fin (6917529027641082 / 1152921504606846976)"
  using nearest_double_eval[of "3 / 500" "- 8"]
  by (simp add: round_half_even_def)

lemma double_3_250: "nearest_double (3 / 250) = Fin (6917529027641082 / 576460752303423488)"
  using nearest_double_eval[of "3 / 250" "- 7"]
  by (simp add: round_half_even_def)

lemma thousand_cents:
  "nearest_double (1000 * (5764607523034235 / 576460752303423488)) = Fin 10"
  using nearest_double_eval[of "1000 * (5764607523034235 / 576460752303423488)" 3]
  by (simp add: round_half_even_def)

text \<open>
  \<open>calculate_lot_size(1000.0, 0.01, 200.0)\<close> and \<open>calculate_lot_size(1.0, 1.0, 20.0)\<close>
  are both the float \<open>0.01\<close>: the quotient is the float \<open>0.005\<close>, which lies just above
  five thousandths.
\<close>

lemma lot_size_at_default_risk:
  "calculate_lot_size (Fin 1000) RISK_PERCENT_PER_TRADE (Fin 200) = Inr (nearest_double (1 / 100))"
  using thousand_cents double_2000 double_half_cent
  by (simp add: calculate_lot_size_def RISK_PERCENT_PER_TRADE_def double_cent round_half_even_def)

lemma lot_size_at_a_tie:
  "calculate_lot_size (Fin 1) (Fin 1) (Fin 20) = Inr (nearest_double (1 / 100))"
  using nearest_double_exact[of 1 0] double_200 double_half_cent
  by (simp add: calculate_lot_size_def round_half_even_def)

lemma lot_size_neg_balance:
  "calculate_lot_size (Fin (- 1000)) (Fin (1 / 2)) (Fin 20) = Inr (Fin (- (5 / 2)))"
  using nearest_double_minus[OF double_500] nearest_double_minus[OF double_5_2] double_200
  by (simp add: calculate_lot_size_def round_half_even_def)

lemma lot_size_big_fraction:
  "calculate_lot_size (Fin 1000) (Fin 2) (Fin 20) = Inr (Fin 10)"
  using double_2000 double_200 double_10
  by (simp add: calculate_lot_size_def round_half_even_def)

lemma lot_size_neg_stop:
  "calculate_lot_size (Fin 1000) (Fin (1 / 2)) (Fin (- 20)) = Inr (Fin (- (5 / 2)))"
  using double_500 nearest_double_minus[OF double_200] nearest_double_minus[OF double_5_2]
  by (simp add: calculate_lot_size_def round_half_even_def)

lemma lot_size_zero_stop:
  "calculate_lot_size (Fin 1000) RISK_PERCENT_PER_TRADE (Fin 0) = Inl ZeroDivisionError"
  using calculate_lot_size_error_iff[of "Fin 0" "Fin 1000" RISK_PERCENT_PER_TRADE ZeroDivisionError]
  by (simp add: is_double_def nearest_double_def)

lemma lot_size_3: "calculate_lot_size (Fin 3) (Fin 1) (Fin 50) = Inr (nearest_double (1 / 100))"
  using double_3 double_500 double_3_500
  by (simp add: calculate_lot_size_def round_half_even_def)

lemma lot_size_6: "calculate_lot_size (Fin (2 * 3)) (Fin 1) (Fin 50) = Inr (nearest_double (1 / 100))"
  using double_6 double_500 double_3_250
  by (simp add: calculate_lot_size_def round_half_even_def)

lemma two_cents:
  "float_mul (Fin 2) (nearest_double (1 / 100)) = Fin (5764607523034235 / 288230376151711744)"
  using nearest_double_exact[of 5764607523034235 "- 58"]
  by (simp add: double_cent)

lemma valid_1000_half_20: "valid_input 1000 (1 / 2) 20"
  by (simp add: valid_input_def is_double_examples)

lemma valid_3_1_50: "valid_input 3 1 50"
  by (simp add: valid_input_def is_double_examples)

subsection \<open>The claims\<close>

text \<open>
  C4, as stated, fails: \<open>calculate_lot_size\<close> checks none of its arguments. A zero
  stop distance ends in \<open>ZeroDivisionError\<close>, which is not \<open>InvalidInput\<close>; a
  negative balance, a risk fraction of 2 and a negative stop distance each return a
  number.
\<close>

theorem lot_size_invalid_input_counterexample:
  "calculate_lot_size (Fin 1000) RISK_PERCENT_PER_TRADE (Fin 0) = Inl ZeroDivisionError
   \<and> calculate_lot_size (Fin 1000) RISK_PERCENT_PER_TRADE (Fin 0) \<noteq> Inl (Exception ''InvalidInput'')
   \<and> calculate_lot_size (Fin (- 1000)) (Fin (1 / 2)) (Fin 20) = Inr (Fin (- (5 / 2)))
   \<and> calculate_lot_size (Fin 1000) (Fin 2) (Fin 20) = Inr (Fin 10)
   \<and> calculate_lot_size (Fin 1000) (Fin (1 / 2)) (Fin (- 20)) = Inr (Fin (- (5 / 2)))"
  by (simp add: lot_size_zero_stop lot_size_neg_balance lot_size_big_fraction lot_size_neg_stop)

text \<open>
  C4, amended: called with floats, the sizer validates nothing and never fails with
  \<open>InvalidInput\<close>. A stop distance of zero ends in \<open>ZeroDivisionError\<close>; with any other
  stop distance, whatever the balance and the risk fraction (negative, above 1,
  infinite or NaN), it returns a float.
\<close>

theorem lot_size_fails_only_on_zero_stop:
  assumes "is_float d"
  shows "(calculate_lot_size b r d = Inl ZeroDivisionError \<longleftrightarrow> d = Fin 0)
       \<and> (d \<noteq> Fin 0 \<longrightarrow> (\<exists>q. calculate_lot_size b r d = Inr q))
       \<and> calculate_lot_size b r d \<noteq> Inl (Exception ''InvalidInput'')"
proof -
  have a: "\<And>e. calculate_lot_size b r d = Inl e \<longleftrightarrow> d = Fin 0 \<and> e = ZeroDivisionError"
    by (rule calculate_lot_size_error_iff[OF assms])
  have "d \<noteq> Fin 0 \<longrightarrow> (\<exists>q. calculate_lot_size b r d = Inr q)"
  proof
    assume "d \<noteq> Fin 0"
    with a have "\<And>e. calculate_lot_size b r d \<noteq> Inl e" by simp
    then show "\<exists>q. calculate_lot_size b r d = Inr q"
      by (cases "calculate_lot_size b r d") auto
  qed
  with a show ?thesis by simp
qed

theorem lot_size_fails_only_on_zero_stop_witness:
  "is_float (Fin (- 20)) \<and> Fin (- 20) \<noteq> Fin 0
   \<and> (\<exists>q. calculate_lot_size (Fin 1000) (Fin (1 / 2)) (Fin (- 20)) = Inr q)
   \<and> is_float (Fin 0)
   \<and> calculate_lot_size (Fin 1000) (Fin (1 / 2)) (Fin 0) = Inl ZeroDivisionError"
proof -
  have f: "is_float (Fin (- 20))" by (simp add: is_double_examples)
  have z: "is_float (Fin 0)" by (simp add: is_double_def nearest_double_def)
  have n: "Fin (- 20) \<noteq> Fin 0" by simp
  from lot_size_fails_only_on_zero_stop[OF f, of "Fin 1000" "Fin (1 / 2)"] n
  have a: "\<exists>q. calculate_lot_size (Fin 1000) (Fin (1 / 2)) (Fin (- 20)) = Inr q" by blast
  from lot_size_fails_only_on_zero_stop[OF z, of "Fin 1000" "Fin (1 / 2)"]
  have b: "calculate_lot_size (Fin 1000) (Fin (1 / 2)) (Fin 0) = Inl ZeroDivisionError" by blast
  from f z n a b show ?thesis by blast
qed



text \<open>
  C6, as stated, fails: the result is rounded, and rounding does not commute with
  doubling. A balance of 3 at risk fraction 1 and stop distance 50 gives
  \<open>round(0.006, 2)\<close>, the float \<open>0.01\<close>; twice the balance gives \<open>round(0.012, 2)\<close>, the
  float \<open>0.01\<close> again, and twice \<open>0.01\<close> is the float \<open>0.02\<close>.
\<close>

theorem lot_size_doubling_counterexample:
  "valid_input 3 1 50
   \<and> calculate_lot_size (Fin 3) (Fin 1) (Fin 50) = Inr (nearest_double (1 / 100))
   \<and> calculate_lot_size (Fin (2 * 3)) (Fin 1) (Fin 50) = Inr (nearest_double (1 / 100))
   \<and> float_mul (Fin 2) (nearest_double (1 / 100)) \<noteq> nearest_double (1 / 100)"
proof -
  have "float_mul (Fin 2) (nearest_double (1 / 100)) \<noteq> nearest_double (1 / 100)"
    by (simp only: two_cents) (simp add: double_cent)
  with valid_3_1_50 lot_size_3 lot_size_6 show ?thesis by blast
qed

text \<open>
  C6, amended: for every valid input of ordinary magnitude (balance, risk fraction and
  stop distance between \<open>2^-300\<close> and \<open>2^300\<close>), twice the balance is again a float, and
  the sizes for the balance and for twice the balance are the floats nearest to
  \<open>k1/100\<close> and \<open>k2/100\<close> for whole numbers \<open>k1\<close>, \<open>k2\<close> with \<open>k2\<close> at most 1 away from
  \<open>2 * k1\<close>: doubling the balance doubles the size up to one hundredth.
\<close>

theorem lot_size_doubling_within_a_cent:
  assumes "valid_input b r d" and "ordinary b" and "ordinary r" and "ordinary d"
  shows "is_double (2 * b)
       \<and> (\<exists>k1 k2 :: int.
            calculate_lot_size (Fin b) (Fin r) (Fin d) = Inr (nearest_double (of_int k1 / 100))
          \<and> calculate_lot_size (Fin (2 * b)) (Fin r) (Fin d) = Inr (nearest_double (of_int k2 / 100))
          \<and> \<bar>k2 - 2 * k1\<bar> \<le> 1)"
proof -
  from assms(1) have b: "is_double b" "0 < b" and r: "0 < r" "r \<le> 1" and d: "is_double d" "0 < d"
    by (simp_all add: valid_input_def)
  from assms(2-4) have ob: "2 powi (- 300) \<le> b" "b \<le> 2 powi 300"
    and orr: "2 powi (- 300) \<le> r" and od: "2 powi (- 300) \<le> d" "d \<le> 2 powi 300"
    by (simp_all only: ordinary_def)
  have n300: "(2::real) powi (- 1022) \<le> 2 powi (- 300)" by (rule two_powi_mono) simp
  from b(1) have "nearest_double b = Fin b" by (simp only: is_double_def)
  from nearest_double_twice[OF _ this ob(2)] n300 ob(1)
  have "nearest_double (2 * b) = Fin (2 * b)" by simp
  then have b2: "is_double (2 * b)" by (simp only: is_double_def)
  have "(2::real) powi (- 300) * 2 powi (- 300) \<le> b * r"
    using ob(1) orr by (intro mult_mono) simp_all
  moreover have "(2::real) powi (- 300) * 2 powi (- 300) = 2 powi (- 600)" by simp
  ultimately have x_lo: "2 powi (- 600) \<le> b * r" by simp
  have "b * r \<le> b" using b(2) r by (simp add: mult_left_le)
  with ob(2) have x_hi: "b * r \<le> 2 powi 300" by linarith
  from nearest_double_between_powers[OF x_lo x_hi] obtain ra where
    ra: "nearest_double (b * r) = Fin ra" "2 powi (- 600) \<le> ra" "ra \<le> 2 powi 300" by auto
  have "(2::real) powi (- 1022) \<le> 2 powi (- 600)" by (rule two_powi_mono) simp
  with x_lo have "2 powi (- 1022) \<le> b * r" by linarith
  from nearest_double_twice[OF this ra(1) ra(3)]
  have ra2: "nearest_double (2 * b * r) = Fin (2 * ra)" by (simp add: mult.assoc)
  have "d \<le> d * 10" using d(2) by simp
  with od(1) have y_lo: "2 powi (- 300) \<le> d * 10" by linarith
  have "d * 10 \<le> 2 powi 300 * 2 powi 4" using od(2) d(2) by (intro mult_mono) simp_all
  moreover have "(2::real) powi 300 * 2 powi 4 = 2 powi 304" by simp
  ultimately have y_hi: "d * 10 \<le> 2 powi 304" by simp
  from nearest_double_between_powers[OF y_lo y_hi] obtain den where
    den: "nearest_double (d * 10) = Fin den" "2 powi (- 300) \<le> den" "den \<le> 2 powi 304" by auto
  have den_pos: "0 < den" using den(2) zero_less_power_int[of "2::real" "- 300"] by linarith
  have ra_pos: "0 < ra" using ra(2) zero_less_power_int[of "2::real" "- 600"] by linarith
  have "2 powi (- 600) / 2 powi 304 \<le> ra / den"
    using ra(2) den(3) den_pos by (intro frac_le) simp_all
  moreover have "(2::real) powi (- 600) / 2 powi 304 = 2 powi (- 904)" by simp
  ultimately have q_lo: "2 powi (- 904) \<le> ra / den" by simp
  have "ra / den \<le> 2 powi 300 / 2 powi (- 300)"
    using ra(3) den(2) ra_pos by (intro frac_le) simp_all
  moreover have "(2::real) powi 300 / 2 powi (- 300) = 2 powi 600" by simp
  ultimately have q_hi: "ra / den \<le> 2 powi 600" by simp
  from nearest_double_between_powers[OF q_lo q_hi] obtain l where
    l: "nearest_double (ra / den) = Fin l" "l \<le> 2 powi 600" by auto
  have "(2::real) powi (- 1022) \<le> 2 powi (- 904)" by (rule two_powi_mono) simp
  with q_lo have "2 powi (- 1022) \<le> ra / den" by linarith
  from nearest_double_twice[OF this l(1) l(2)]
  have l2: "nearest_double (2 * ra / den) = Fin (2 * l)" by simp
  from den_pos have dz: "den \<noteq> 0" by simp
  have s1: "calculate_lot_size (Fin b) (Fin r) (Fin d)
              = Inr (nearest_double (of_int (round_half_even (l * 100)) / 100))"
    using ra(1) den(1) dz l(1) by (simp add: calculate_lot_size_def)
  have s2: "calculate_lot_size (Fin (2 * b)) (Fin r) (Fin d)
              = Inr (nearest_double (of_int (round_half_even (2 * l * 100)) / 100))"
    using ra2 den(1) dz l2 by (simp add: calculate_lot_size_def)
  from b2 s1 s2 hundredths_under_doubling[of l] show ?thesis by blast
qed

theorem lot_size_doubling_within_a_cent_witness:
  "valid_input 3 1 50 \<and> ordinary 3 \<and> ordinary 1 \<and> ordinary 50
   \<and> is_double (2 * 3)
   \<and> (\<exists>k1 k2 :: int.
         calculate_lot_size (Fin 3) (Fin 1) (Fin 50) = Inr (nearest_double (of_int k1 / 100))
       \<and> calculate_lot_size (Fin (2 * 3)) (Fin 1) (Fin 50) = Inr (nearest_double (of_int k2 / 100))
       \<and> \<bar>k2 - 2 * k1\<bar> \<le> 1)"
proof -
  have o: "ordinary 3" "ordinary 1" "ordinary 50" by (simp_all add: ordinary_def)
  from lot_size_doubling_within_a_cent[OF valid_3_1_50 o] valid_3_1_50 o
  show ?thesis by blast
qed

text \<open>
  C7: for every valid input (finite floats) the sizer returns a float, and that float is
  not negative. The result is a function of the three arguments and of nothing else (the
  source reads no attribute, global or clock), so two calls with the same arguments
  return the same result.
\<close>

theorem lot_size_nonneg:
  assumes "valid_input b r d"
  shows "\<exists>q. calculate_lot_size (Fin b) (Fin r) (Fin d) = Inr q \<and> float_ge_zero q"
proof -
  from assms have b: "is_double b" "0 < b" and r: "0 < r" "r \<le> 1" and d: "is_double d" "0 < d"
    by (simp_all add: valid_input_def)
  from b r have "0 < b * r" and "b * r \<le> b" by (simp_all add: mult_left_le)
  from nearest_double_below_double[OF this b(1)] obtain ra where
    ra: "nearest_double (b * r) = Fin ra" "0 \<le> ra" by blast
  have den_ge: "float_ge_zero (nearest_double (d * 10))" using d(2) by (intro nearest_double_nonneg) simp
  from d have "is_float (Fin d)" "Fin d \<noteq> Fin 0" by simp_all
  with float_mul_ten_zero_iff[of "Fin d"] have den_nz: "nearest_double (d * 10) \<noteq> Fin 0" by simp
  have "\<exists>lot. float_truediv (Fin ra) (nearest_double (d * 10)) = Inr lot \<and> float_ge_zero lot"
  proof (cases "nearest_double (d * 10)")
    case (Fin z)
    with den_ge den_nz have "0 < z" by simp
    with ra(2) have "0 \<le> ra / z" by simp
    from nearest_double_nonneg[OF this] Fin \<open>0 < z\<close> show ?thesis by simp
  next
    case PosInf
    then show ?thesis by simp
  next
    case NegInf
    with den_ge show ?thesis by simp
  next
    case NaN
    with den_ge show ?thesis by simp
  qed
  then obtain lot where "float_truediv (Fin ra) (nearest_double (d * 10)) = Inr lot"
    and "float_ge_zero lot" by blast
  with ra(1) float_round_nonneg[of lot 2] show ?thesis
    by (simp add: calculate_lot_size_def)
qed

theorem lot_size_nonneg_witness:
  "valid_input 1000 (1 / 2) 20
   \<and> (\<exists>q. calculate_lot_size (Fin 1000) (Fin (1 / 2)) (Fin 20) = Inr q \<and> float_ge_zero q)"
  using lot_size_nonneg[OF valid_1000_half_20] valid_1000_half_20 by blast

section \<open>The orchestrator\<close>

subsection \<open>One cycle of the concrete deployment, and facts about a cycle\<close>

lemmas demo_defs = demo_bot_def demo_bot_capped_def unprintable_bot_def ObotCore_init_def
  demo_fetch_candles_def unprintable_fetch_candles_def
  demo_generate_signal_def PAIRS_def process_pair_def try_body_def dict_subscript_def
  dict_get_def MAX_CONCURRENT_TRADES_PER_PAIR_def

lemma demo_trace:
  "for_pairs demo_bot PAIRS 0 =
     ([FetchCandles ''EURUSD'' ''H1'' 100, GenerateSignal ''EURUSD'',
       FetchCandles ''GBPUSD'' ''H1'' 100, LogError ''GBPUSD'' (Exception ''DataUnavailable''),
       FetchCandles ''USDJPY'' ''H1'' 100, GenerateSignal ''USDJPY'',
       FetchCandles ''USDCHF'' ''H1'' 100, GenerateSignal ''USDCHF'', LogInfoSignal ''USDCHF'' ''BUY'',
       FetchCandles ''AUDUSD'' ''H1'' 100, GenerateSignal ''AUDUSD'',
       LogError ''AUDUSD'' (Exception ''model not loaded''),
       FetchCandles ''USDCAD'' ''H1'' 100, GenerateSignal ''USDCAD'',
       FetchCandles ''NZDUSD'' ''H1'' 100, GenerateSignal ''NZDUSD''], 7, None)"
  by (simp add: demo_defs)

lemma demo_trace_capped:
  "for_pairs demo_bot_capped PAIRS 0 =
     ([FetchCandles ''EURUSD'' ''H1'' 100, GenerateSignal ''EURUSD'',
       FetchCandles ''GBPUSD'' ''H1'' 100, LogError ''GBPUSD'' (Exception ''DataUnavailable''),
       FetchCandles ''USDJPY'' ''H1'' 100, GenerateSignal ''USDJPY'',
       FetchCandles ''USDCHF'' ''H1'' 100, GenerateSignal ''USDCHF'', LogInfoSignal ''USDCHF'' ''BUY'',
       FetchCandles ''AUDUSD'' ''H1'' 100, GenerateSignal ''AUDUSD'',
       LogError ''AUDUSD'' (Exception ''model not loaded''),
       FetchCandles ''NZDUSD'' ''H1'' 100, GenerateSignal ''NZDUSD''], 6, None)"
  by (simp add: demo_defs)





lemma start_in: "is_trading_session TRADING_SESSION_START" "is_trading_session TRADING_SESSION_END"
  by (simp_all add: is_trading_session_def time_le_def TRADING_SESSION_START_def TRADING_SESSION_END_def)

lemma time_le_iff_not_lt: "time_le a b \<longleftrightarrow> \<not> time_lt b a"
  unfolding time_le_def time_lt_def by auto

lemma run_cycle_outside:
  assumes "\<not> is_trading_session now"
  shows "run_cycle self now w = (self, [LogInfoOutsideSession, Sleep 300], w, None)"
  using assms by (simp add: run_cycle_def)

lemma run_cycle_self: "fst (run_cycle self now w) = self"
  by (simp add: run_cycle_def split: prod.splits option.splits)

lemma for_pairs_first_fetch:
  assumes "admitted self p" and "for_pairs self (p # ps) w = (evs, w', r)"
  shows "\<exists>evs'. evs = FetchCandles p ''H1'' 100 # evs'"
proof -
  obtain evp w1 rp where pp: "process_pair self p w = (evp, w1, rp)"
    by (cases "process_pair self p w") auto
  from process_pair_forms[OF pp] obtain evs0 r0 where
    t: "try_body self p w = (evs0, w1, r0)" and
    c: "evp = evs0 \<or> (\<exists>e. evp = evs0 @ [LogError p e])" by blast
  from try_body_forms[OF t] c have "\<exists>evs'. evp = FetchCandles p ''H1'' 100 # evs'" by auto
  with assms pp show ?thesis
    by (auto simp: admitted_def dict_subscript_def split: prod.splits option.splits)
qed

text \<open>
  C2: the session test is inclusive on both bounds. A cycle started strictly before
  08:00 or strictly after 12:00 makes no call at all: it logs, sleeps 300 seconds and
  returns. A cycle started at exactly 08:00 or exactly 12:00 runs the loop over the
  pairs, whose first event, when the first pair is admitted, is its data fetch. In
  general the cycle is in session exactly when the time is neither before 08:00 nor
  after 12:00.
\<close>

theorem session_window_inclusive:
  "(time_lt now TRADING_SESSION_START \<or> time_lt TRADING_SESSION_END now \<longrightarrow>
      run_cycle self now w = (self, [LogInfoOutsideSession, Sleep 300], w, None))
   \<and> (now = TRADING_SESSION_START \<or> now = TRADING_SESSION_END \<longrightarrow>
        (\<exists>evs w' r. for_pairs self PAIRS w = (evs, w', r)
           \<and> run_cycle self now w = (self, evs @ (if r = None then [Sleep 60] else []), w', r)
           \<and> (admitted self ''EURUSD'' \<longrightarrow> hd evs = FetchCandles ''EURUSD'' ''H1'' 100)))
   \<and> (is_trading_session now \<longleftrightarrow>
        \<not> time_lt now TRADING_SESSION_START \<and> \<not> time_lt TRADING_SESSION_END now)"
proof (intro conjI impI)
  show iff: "is_trading_session now \<longleftrightarrow>
        \<not> time_lt now TRADING_SESSION_START \<and> \<not> time_lt TRADING_SESSION_END now"
    by (simp add: is_trading_session_def time_le_iff_not_lt)
  assume "time_lt now TRADING_SESSION_START \<or> time_lt TRADING_SESSION_END now"
  with iff have "\<not> is_trading_session now" by blast
  then show "run_cycle self now w = (self, [LogInfoOutsideSession, Sleep 300], w, None)"
    by (rule run_cycle_outside)
next
  assume "now = TRADING_SESSION_START \<or> now = TRADING_SESSION_END"
  then have sess: "is_trading_session now"
    by (auto simp: is_trading_session_def time_le_def TRADING_SESSION_START_def
          TRADING_SESSION_END_def)
  obtain evs w' r where fp: "for_pairs self PAIRS w = (evs, w', r)"
    by (cases "for_pairs self PAIRS w") auto
  have "admitted self ''EURUSD'' \<longrightarrow> hd evs = FetchCandles ''EURUSD'' ''H1'' 100"
  proof
    assume adm: "admitted self ''EURUSD''"
    from fp have "for_pairs self (''EURUSD'' # tl PAIRS) w = (evs, w', r)"
      by (simp add: PAIRS_def)
    from for_pairs_first_fetch[OF adm this] show "hd evs = FetchCandles ''EURUSD'' ''H1'' 100"
      by auto
  qed
  with run_cycle_in_session[OF sess fp] fp
  show "\<exists>evs w' r. for_pairs self PAIRS w = (evs, w', r)
           \<and> run_cycle self now w = (self, evs @ (if r = None then [Sleep 60] else []), w', r)
           \<and> (admitted self ''EURUSD'' \<longrightarrow> hd evs = FetchCandles ''EURUSD'' ''H1'' 100)"
    by blast
qed

text \<open>
  C3: a pair whose open-position count has reached the cap is skipped: whatever the
  clock and the outside state, the cycle calls neither \<open>fetch_candles\<close> nor
  \<open>generate_signal\<close> for it.
\<close>

theorem capped_pair_skipped:
  assumes "active_positions self pair = Some n"
    and "n \<ge> MAX_CONCURRENT_TRADES_PER_PAIR"
    and "run_cycle self now w = (self', evs, w', r)"
  shows "filter (is_fetch_for pair) evs = [] \<and> filter (is_generate_for pair) evs = []"
proof (cases "is_trading_session now")
  case False
  from run_cycle_outside[OF False, of self w] assms(3) show ?thesis by simp
next
  case True
  from assms(1,2) have na: "\<not> admitted self pair" by (simp add: admitted_def)
  obtain evs0 w0 r0 where fp: "for_pairs self PAIRS w = (evs0, w0, r0)"
    by (cases "for_pairs self PAIRS w") auto
  from for_pairs_silent[OF fp, of pair] na
  have "filter (is_fetch_for pair) evs0 = [] \<and> filter (is_generate_for pair) evs0 = []"
    by simp
  with run_cycle_in_session[OF True fp] assms(3) show ?thesis by auto
qed

lemma run_cycle_no_trader_call:
  assumes "run_cycle self now w = (self', evs, w', r)" and "e \<in> set evs"
  shows "\<not> is_trader_call e"
proof (cases "is_trading_session now")
  case False
  from run_cycle_outside[OF False, of self w] assms show ?thesis by auto
next
  case True
  obtain evs0 w0 r0 where fp: "for_pairs self PAIRS w = (evs0, w0, r0)"
    by (cases "for_pairs self PAIRS w") auto
  from run_cycle_in_session[OF True fp] assms
  have "e \<in> set evs0 \<or> e = Sleep 60" by (auto split: if_splits)
  with for_pairs_events[OF fp] show ?thesis by auto
qed

lemma reachable_constructed:
  assumes "reachable s"
  shows "\<exists>dp tr st. s = ObotCore_init dp tr st"
  using assms
proof (induction rule: reachable.induct)
  case (constructed dp tr st)
  then show ?case by blast
next
  case (cycle self now w self' r)
  from cycle.hyps(2) run_cycle_self[of self now w] have "self' = self" by simp
  with cycle.IH show ?case by simp
qed

lemma init_table: "p \<in> set PAIRS \<Longrightarrow> active_positions (ObotCore_init dp tr st) p = Some 0"
  by (auto simp: ObotCore_init_def PAIRS_def)

lemma init_table_values: "active_positions (ObotCore_init dp tr st) p = Some n \<Longrightarrow> n = 0"
  by (auto simp: ObotCore_init_def PAIRS_def split: if_splits)

text \<open>
  C9: the constructor maps every configured pair to 0; \<open>run_cycle\<close> hands the object
  back as it received it; so in every reachable object every configured pair is at 0,
  and no count exceeds the cap.
\<close>

theorem position_table_never_modified:
  "(\<forall>p\<in>set PAIRS. active_positions (ObotCore_init dp tr st) p = Some 0)
   \<and> fst (run_cycle self now w) = self
   \<and> (reachable s \<longrightarrow>
        (\<forall>p\<in>set PAIRS. active_positions s p = Some 0)
        \<and> (\<forall>p n. active_positions s p = Some n \<longrightarrow> n \<le> MAX_CONCURRENT_TRADES_PER_PAIR))"
proof (intro conjI impI)
  show "\<forall>p\<in>set PAIRS. active_positions (ObotCore_init dp tr st) p = Some 0"
    by (simp add: init_table)
  show "fst (run_cycle self now w) = self" by (rule run_cycle_self)
next
  assume "reachable s"
  then obtain dp' tr' st' where s: "s = ObotCore_init dp' tr' st'"
    using reachable_constructed by blast
  show "\<forall>p\<in>set PAIRS. active_positions s p = Some 0"
    unfolding s by (simp add: init_table)
next
  assume "reachable s"
  then obtain dp' tr' st' where s: "s = ObotCore_init dp' tr' st'"
    using reachable_constructed by blast
  show "\<forall>p n. active_positions s p = Some n \<longrightarrow> n \<le> MAX_CONCURRENT_TRADES_PER_PAIR"
    unfolding s by (auto dest: init_table_values simp: MAX_CONCURRENT_TRADES_PER_PAIR_def)
qed



lemma try_body_quiet:
  assumes "data_provider self p ''H1'' 100 w1 = (Inr d, w1')"
    and "strategy self p d w1' = (Inr (Dict signal), w2)"
    and "\<not> py_ne_zero (dict_get signal ''signal'' (PInt 0))"
  shows "try_body self p w1 = ([FetchCandles p ''H1'' 100, GenerateSignal p], w2, None)"
  unfolding try_body_def by (simp only: assms prod.case sum.case py_signal.case if_False)

lemma quiet_pair:
  assumes "data_provider self p ''H1'' 100 w1 = (Inr d, w1')"
    and "strategy self p d w1' = (Inr (Dict signal), w2)"
    and "\<not> py_ne_zero (dict_get signal ''signal'' (PInt 0))"
  shows "process_pair self p w1 = ([FetchCandles p ''H1'' 100, GenerateSignal p], w2, None)"
  unfolding process_pair_def by (simp only: try_body_quiet[OF assms] prod.case option.case)


lemma cycle_through_pair:
  assumes "is_trading_session now"
    and "PAIRS = before @ p # after"
    and "admitted self p"
    and "for_pairs self before w = (evs1, w1, None)"
    and "process_pair self p w1 = (evp, w2, None)"
  shows "\<exists>evs3 w3 r3. for_pairs self after w2 = (evs3, w3, r3)
          \<and> run_cycle self now w =
              (self, evs1 @ evp @ evs3 @ (if r3 = None then [Sleep 60] else []), w3, r3)
          \<and> filter (is_signal_for p) evs1 = [] \<and> filter (is_signal_for p) evs3 = []
          \<and> filter (is_error_for p) evs1 = [] \<and> filter (is_error_for p) evs3 = []"
proof -
  obtain evs3 w3 r3 where fp: "for_pairs self after w2 = (evs3, w3, r3)"
    by (cases "for_pairs self after w2") auto
  from for_pairs_split[OF assms(4) assms(3) assms(5) fp]
  have all: "for_pairs self PAIRS w = (evs1 @ evp @ evs3, w3, r3)"
    unfolding assms(2) .
  from PAIRS_distinct have "distinct (before @ p # after)" by (simp only: assms(2))
  then have "p \<notin> set before" "p \<notin> set after" by auto
  with for_pairs_silent[OF assms(4), of p] for_pairs_silent[OF fp, of p]
  have "filter (is_signal_for p) evs1 = [] \<and> filter (is_signal_for p) evs3 = []
          \<and> filter (is_error_for p) evs1 = [] \<and> filter (is_error_for p) evs3 = []"
    by simp
  with run_cycle_in_session[OF assms(1) all] fp show ?thesis by simp
qed



text \<open>
  C8: when the strategy answers a pair with a signal of 0 (\<open>0\<close>, \<open>0.0\<close> or \<open>False\<close>,
  which Python does not tell apart from 0), the pair contributes its two calls and
  nothing else: the cycle holds no signal record for it, and no event of the cycle is a
  call of the trader.
\<close>

theorem no_signal_no_action:
  assumes "is_trading_session now"
    and "PAIRS = before @ p # after"
    and "admitted self p"
    and "for_pairs self before w = (evs1, w1, None)"
    and "data_provider self p ''H1'' 100 w1 = (Inr d, w1')"
    and "strategy self p d w1' = (Inr (Dict signal), w2)"
    and "signal ''signal'' = Some v"
    and "v = PInt 0 \<or> v = PFloat 0 \<or> v = PBool False"
  shows "\<exists>evs evs3 w3 r3.
           run_cycle self now w = (self, evs, w3, r3)
         \<and> evs = evs1 @ [FetchCandles p ''H1'' 100, GenerateSignal p] @ evs3
                   @ (if r3 = None then [Sleep 60] else [])
         \<and> for_pairs self after w2 = (evs3, w3, r3)
         \<and> filter (is_signal_for p) evs = []
         \<and> (\<forall>ev\<in>set evs. \<not> is_trader_call ev)"
proof -
  from assms(7,8) have "\<not> py_ne_zero (dict_get signal ''signal'' (PInt 0))"
    by (auto simp: dict_get_def)
  from quiet_pair[OF assms(5) assms(6) this]
  have pp: "process_pair self p w1 = ([FetchCandles p ''H1'' 100, GenerateSignal p], w2, None)" .
  from cycle_through_pair[OF assms(1) assms(2) assms(3) assms(4) pp]
  obtain evs3 w3 r3 where fp: "for_pairs self after w2 = (evs3, w3, r3)"
    and rc: "run_cycle self now w =
              (self, evs1 @ [FetchCandles p ''H1'' 100, GenerateSignal p] @ evs3
                       @ (if r3 = None then [Sleep 60] else []), w3, r3)"
    and q: "filter (is_signal_for p) evs1 = []" "filter (is_signal_for p) evs3 = []"
    by blast
  from run_cycle_no_trader_call[OF rc]
  have "\<forall>ev\<in>set (evs1 @ [FetchCandles p ''H1'' 100, GenerateSignal p] @ evs3
                       @ (if r3 = None then [Sleep 60] else [])). \<not> is_trader_call ev"
    by blast
  with rc fp q show ?thesis by auto
qed

text \<open>
  C10: when the strategy answers a pair with a dictionary that has no \<open>"signal"\<close> key,
  \<open>get\<close> supplies 0: the pair contributes its two calls, no signal record and no error
  record, and the loop goes on over the remaining pairs.
\<close>

theorem missing_signal_key_is_no_signal:
  assumes "is_trading_session now"
    and "PAIRS = before @ p # after"
    and "admitted self p"
    and "for_pairs self before w = (evs1, w1, None)"
    and "data_provider self p ''H1'' 100 w1 = (Inr d, w1')"
    and "strategy self p d w1' = (Inr (Dict signal), w2)"
    and "signal ''signal'' = None"
  shows "\<exists>evs evs3 w3 r3.
           run_cycle self now w = (self, evs, w3, r3)
         \<and> evs = evs1 @ [FetchCandles p ''H1'' 100, GenerateSignal p] @ evs3
                   @ (if r3 = None then [Sleep 60] else [])
         \<and> for_pairs self after w2 = (evs3, w3, r3)
         \<and> filter (is_signal_for p) evs = []
         \<and> filter (is_error_for p) evs = []"
proof -
  from assms(7) have "\<not> py_ne_zero (dict_get signal ''signal'' (PInt 0))"
    by (simp add: dict_get_def)
  from quiet_pair[OF assms(5) assms(6) this]
  have pp: "process_pair self p w1 = ([FetchCandles p ''H1'' 100, GenerateSignal p], w2, None)" .
  from cycle_through_pair[OF assms(1) assms(2) assms(3) assms(4) pp]
  obtain evs3 w3 r3 where fp: "for_pairs self after w2 = (evs3, w3, r3)"
    and rc: "run_cycle self now w =
              (self, evs1 @ [FetchCandles p ''H1'' 100, GenerateSignal p] @ evs3
                       @ (if r3 = None then [Sleep 60] else []), w3, r3)"
    and q: "filter (is_signal_for p) evs1 = []" "filter (is_signal_for p) evs3 = []"
      "filter (is_error_for p) evs1 = []" "filter (is_error_for p) evs3 = []"
    by blast
  with rc fp q show ?thesis by auto
qed


lemma demo_admitted: "q \<in> set PAIRS \<Longrightarrow> admitted demo_bot q"
  by (simp add: admitted_def demo_bot_def init_table MAX_CONCURRENT_TRADES_PER_PAIR_def)

theorem session_window_inclusive_witness:
  "time_lt \<lparr>hour = 7, minute = 59, second = 0, microsecond = 0\<rparr> TRADING_SESSION_START
   \<and> run_cycle demo_bot \<lparr>hour = 7, minute = 59, second = 0, microsecond = 0\<rparr> 0
       = (demo_bot, [LogInfoOutsideSession, Sleep 300], 0, None)
   \<and> time_lt TRADING_SESSION_END \<lparr>hour = 12, minute = 0, second = 0, microsecond = 1\<rparr>
   \<and> run_cycle demo_bot \<lparr>hour = 12, minute = 0, second = 0, microsecond = 1\<rparr> 0
       = (demo_bot, [LogInfoOutsideSession, Sleep 300], 0, None)
   \<and> admitted demo_bot ''EURUSD''
   \<and> (\<exists>evs w' r. for_pairs demo_bot PAIRS 0 = (evs, w', r)
         \<and> run_cycle demo_bot TRADING_SESSION_END 0
             = (demo_bot, evs @ (if r = None then [Sleep 60] else []), w', r)
         \<and> hd evs = FetchCandles ''EURUSD'' ''H1'' 100)"
proof -
  have early: "time_lt \<lparr>hour = 7, minute = 59, second = 0, microsecond = 0\<rparr> TRADING_SESSION_START"
    by (simp add: time_lt_def TRADING_SESSION_START_def)
  have late: "time_lt TRADING_SESSION_END \<lparr>hour = 12, minute = 0, second = 0, microsecond = 1\<rparr>"
    by (simp add: time_lt_def TRADING_SESSION_END_def)
  have adm: "admitted demo_bot ''EURUSD''"
    by (rule demo_admitted) (simp add: PAIRS_def)
  from early session_window_inclusive[of "\<lparr>hour = 7, minute = 59, second = 0, microsecond = 0\<rparr>" demo_bot 0]
  have a: "run_cycle demo_bot \<lparr>hour = 7, minute = 59, second = 0, microsecond = 0\<rparr> 0
       = (demo_bot, [LogInfoOutsideSession, Sleep 300], 0, None)" by blast
  from late session_window_inclusive[of "\<lparr>hour = 12, minute = 0, second = 0, microsecond = 1\<rparr>" demo_bot 0]
  have b: "run_cycle demo_bot \<lparr>hour = 12, minute = 0, second = 0, microsecond = 1\<rparr> 0
       = (demo_bot, [LogInfoOutsideSession, Sleep 300], 0, None)" by blast
  from adm session_window_inclusive[of TRADING_SESSION_END demo_bot 0]
  have c: "\<exists>evs w' r. for_pairs demo_bot PAIRS 0 = (evs, w', r)
         \<and> run_cycle demo_bot TRADING_SESSION_END 0
             = (demo_bot, evs @ (if r = None then [Sleep 60] else []), w', r)
         \<and> hd evs = FetchCandles ''EURUSD'' ''H1'' 100" by blast
  from early late adm a b c show ?thesis by blast
qed

theorem capped_pair_skipped_witness:
  "active_positions demo_bot_capped ''USDCAD'' = Some 1
   \<and> 1 \<ge> MAX_CONCURRENT_TRADES_PER_PAIR
   \<and> (\<exists>evs. run_cycle demo_bot_capped TRADING_SESSION_START 0 = (demo_bot_capped, evs, 6, None)
         \<and> FetchCandles ''NZDUSD'' ''H1'' 100 \<in> set evs
         \<and> filter (is_fetch_for ''USDCAD'') evs = []
         \<and> filter (is_generate_for ''USDCAD'') evs = [])"
proof -
  have n: "active_positions demo_bot_capped ''USDCAD'' = Some 1"
    by (simp add: demo_bot_capped_def)
  have cap: "1 \<ge> MAX_CONCURRENT_TRADES_PER_PAIR"
    by (simp add: MAX_CONCURRENT_TRADES_PER_PAIR_def)
  obtain evs where rc: "run_cycle demo_bot_capped TRADING_SESSION_START 0 = (demo_bot_capped, evs, 6, None)"
    and nz: "FetchCandles ''NZDUSD'' ''H1'' 100 \<in> set evs"
    using run_cycle_in_session[OF start_in(1) demo_trace_capped] by simp
  from capped_pair_skipped[OF n cap rc] n cap rc nz show ?thesis by blast
qed

theorem position_table_never_modified_witness:
  "reachable (fst (run_cycle demo_bot TRADING_SESSION_START 0))
   \<and> active_positions (fst (run_cycle demo_bot TRADING_SESSION_START 0)) ''EURUSD'' = Some 0
   \<and> active_positions (fst (run_cycle demo_bot TRADING_SESSION_START 0)) ''NZDUSD'' = Some 0
   \<and> (0::int) \<le> MAX_CONCURRENT_TRADES_PER_PAIR"
proof -
  let ?s = "fst (run_cycle demo_bot TRADING_SESSION_START 0)"
  have "reachable demo_bot" unfolding demo_bot_def by (rule reachable.constructed)
  then have r: "reachable ?s"
    by (rule reachable.cycle[where now = TRADING_SESSION_START and w = 0
          and r = "snd (run_cycle demo_bot TRADING_SESSION_START 0)"]) simp
  have m: "''EURUSD'' \<in> set PAIRS" "''NZDUSD'' \<in> set PAIRS" by (simp_all add: PAIRS_def)
  from position_table_never_modified[of demo_fetch_candles "()" demo_generate_signal demo_bot TRADING_SESSION_START 0 ?s] r
  have t: "\<forall>p\<in>set PAIRS. active_positions ?s p = Some 0"
    and c: "\<forall>p n. active_positions ?s p = Some n \<longrightarrow> n \<le> MAX_CONCURRENT_TRADES_PER_PAIR"
    by blast+
  from t m have e: "active_positions ?s ''EURUSD'' = Some 0" "active_positions ?s ''NZDUSD'' = Some 0"
    by blast+
  with c have "(0::int) \<le> MAX_CONCURRENT_TRADES_PER_PAIR" by blast
  with r e show ?thesis by blast
qed


theorem no_signal_no_action_witness:
  "is_trading_session TRADING_SESSION_START
   \<and> PAIRS = [''EURUSD'', ''GBPUSD'', ''USDJPY'', ''USDCHF'', ''AUDUSD''] @ ''USDCAD'' # [''NZDUSD'']
   \<and> admitted demo_bot ''USDCAD''
   \<and> data_provider demo_bot ''USDCAD'' ''H1'' 100 5 = (Inr 100, 6)
   \<and> strategy demo_bot ''USDCAD'' 100 6 = (Inr (Dict [''signal'' \<mapsto> PInt 0]), 6)
   \<and> [''signal'' \<mapsto> PInt 0] ''signal'' = Some (PInt 0)
   \<and> (\<exists>evs1 evs evs3 w3 r3.
           for_pairs demo_bot [''EURUSD'', ''GBPUSD'', ''USDJPY'', ''USDCHF'', ''AUDUSD''] 0
             = (evs1, 5, None)
         \<and> run_cycle demo_bot TRADING_SESSION_START 0 = (demo_bot, evs, w3, r3)
         \<and> evs = evs1 @ [FetchCandles ''USDCAD'' ''H1'' 100, GenerateSignal ''USDCAD''] @ evs3
                   @ (if r3 = None then [Sleep 60] else [])
         \<and> for_pairs demo_bot [''NZDUSD''] 6 = (evs3, w3, r3)
         \<and> filter (is_signal_for ''USDCAD'') evs = []
         \<and> (\<forall>ev\<in>set evs. \<not> is_trader_call ev))"
proof -
  have split: "PAIRS = [''EURUSD'', ''GBPUSD'', ''USDJPY'', ''USDCHF'', ''AUDUSD''] @ ''USDCAD'' # [''NZDUSD'']"
    by (simp add: PAIRS_def)
  have adm: "admitted demo_bot ''USDCAD''"
    by (rule demo_admitted) (simp add: PAIRS_def)
  obtain evs1 where pre:
    "for_pairs demo_bot [''EURUSD'', ''GBPUSD'', ''USDJPY'', ''USDCHF'', ''AUDUSD''] 0 = (evs1, 5, None)"
    by (simp add: demo_defs)
  have fetch: "data_provider demo_bot ''USDCAD'' ''H1'' 100 5 = (Inr 100, 6)"
    by (simp add: demo_bot_def ObotCore_init_def demo_fetch_candles_def)
  have gen: "strategy demo_bot ''USDCAD'' 100 6 = (Inr (Dict [''signal'' \<mapsto> PInt 0]), 6)"
    by (simp add: demo_bot_def ObotCore_init_def demo_generate_signal_def)
  have key: "[''signal'' \<mapsto> PInt 0] ''signal'' = Some (PInt 0)" by simp
  have zero: "PInt 0 = PInt 0 \<or> PInt 0 = PFloat 0 \<or> PInt 0 = PBool False" by simp
  from no_signal_no_action[OF start_in(1) split adm pre fetch gen key zero]
    start_in(1) split adm pre fetch gen key
  show ?thesis by blast
qed

theorem missing_signal_key_is_no_signal_witness:
  "is_trading_session TRADING_SESSION_START
   \<and> PAIRS = [''EURUSD'', ''GBPUSD''] @ ''USDJPY'' # [''USDCHF'', ''AUDUSD'', ''USDCAD'', ''NZDUSD'']
   \<and> admitted demo_bot ''USDJPY''
   \<and> data_provider demo_bot ''USDJPY'' ''H1'' 100 2 = (Inr 100, 3)
   \<and> strategy demo_bot ''USDJPY'' 100 3 = (Inr (Dict [''confidence'' \<mapsto> PFloat (1 / 2)]), 3)
   \<and> [''confidence'' \<mapsto> PFloat (1 / 2)] ''signal'' = None
   \<and> (\<exists>evs1 evs evs3 w3 r3.
           for_pairs demo_bot [''EURUSD'', ''GBPUSD''] 0 = (evs1, 2, None)
         \<and> run_cycle demo_bot TRADING_SESSION_START 0 = (demo_bot, evs, w3, r3)
         \<and> evs = evs1 @ [FetchCandles ''USDJPY'' ''H1'' 100, GenerateSignal ''USDJPY''] @ evs3
                   @ (if r3 = None then [Sleep 60] else [])
         \<and> for_pairs demo_bot [''USDCHF'', ''AUDUSD'', ''USDCAD'', ''NZDUSD''] 3 = (evs3, w3, r3)
         \<and> filter (is_signal_for ''USDJPY'') evs = []
         \<and> filter (is_error_for ''USDJPY'') evs = [])"
proof -
  have split: "PAIRS = [''EURUSD'', ''GBPUSD''] @ ''USDJPY'' # [''USDCHF'', ''AUDUSD'', ''USDCAD'', ''NZDUSD'']"
    by (simp add: PAIRS_def)
  have adm: "admitted demo_bot ''USDJPY''"
    by (rule demo_admitted) (simp add: PAIRS_def)
  obtain evs1 where pre: "for_pairs demo_bot [''EURUSD'', ''GBPUSD''] 0 = (evs1, 2, None)"
    by (simp add: demo_defs)
  have fetch: "data_provider demo_bot ''USDJPY'' ''H1'' 100 2 = (Inr 100, 3)"
    by (simp add: demo_bot_def ObotCore_init_def demo_fetch_candles_def)
  have gen: "strategy demo_bot ''USDJPY'' 100 3 = (Inr (Dict [''confidence'' \<mapsto> PFloat (1 / 2)]), 3)"
    by (simp add: demo_bot_def ObotCore_init_def demo_generate_signal_def)
  have key: "[''confidence'' \<mapsto> PFloat (1 / 2)] ''signal'' = None" by simp
  from missing_signal_key_is_no_signal[OF start_in(1) split adm pre fetch gen key]
    start_in(1) split adm pre fetch gen key
  show ?thesis by blast
qed

end
